theory Spec2Isabelle
  imports Complex_Main
begin

section \<open>Arrays\<close>

text \<open>
  The script \<^verbatim>\<open>examples/bayesian_neural_net.py\<close> computes on numpy arrays. An array is
  modelled as numpy holds it: a shape and the elements in row-major (C) order. The rank is
  fixed by the type, following the docstring of \<^verbatim>\<open>predictions\<close> (weights and inputs are
  two-dimensional); a one-dimensional array is a list. Elements are real numbers: the
  rounding, the infinities and the NaN of IEEE arithmetic are not part of this model, so
  it says which operations the script applies to which elements and in which shapes, and
  nothing about properties that depend on how a double rounds, underflows or overflows, or
  on the order in which a floating-point sum is taken.
\<close>

datatype error = ValueError | IndexError | UnboundLocalError

record array2 =
  shape2 :: "nat \<times> nat"
  data2 :: "real list"

record array3 =
  shape3 :: "nat \<times> nat \<times> nat"
  data3 :: "real list"

text \<open>Every array that numpy builds holds as many elements as its shape says.\<close>

definition wf2 :: "array2 \<Rightarrow> bool" where
  "wf2 a = (length (data2 a) = fst (shape2 a) * snd (shape2 a))"

definition wf3 :: "array3 \<Rightarrow> bool" where
  "wf3 a = (case shape3 a of (s, n, k) \<Rightarrow> length (data3 a) = s * n * k)"

text \<open>Indexing \<^verbatim>\<open>a[i, j]\<close> and \<^verbatim>\<open>a[i, j, k]\<close>, for indices within the shape.\<close>

definition at2 :: "array2 \<Rightarrow> nat \<Rightarrow> nat \<Rightarrow> real" where
  "at2 a i j = data2 a ! (i * snd (shape2 a) + j)"

definition at3 :: "array3 \<Rightarrow> nat \<Rightarrow> nat \<Rightarrow> nat \<Rightarrow> real" where
  "at3 a i j k = (case shape3 a of (s, n, d) \<Rightarrow> data3 a ! ((i * n + j) * d + k))"

text \<open>The array of a given shape whose element at each index is given by a function.\<close>

definition tab2 :: "nat \<Rightarrow> nat \<Rightarrow> (nat \<Rightarrow> nat \<Rightarrow> real) \<Rightarrow> array2" where
  "tab2 s w f = \<lparr>shape2 = (s, w), data2 = concat (map (\<lambda>i. map (f i) [0..<w]) [0..<s])\<rparr>"

definition tab3 :: "nat \<Rightarrow> nat \<Rightarrow> nat \<Rightarrow> (nat \<Rightarrow> nat \<Rightarrow> nat \<Rightarrow> real) \<Rightarrow> array3" where
  "tab3 s n d f =
     \<lparr>shape3 = (s, n, d),
      data3 = concat (map (\<lambda>i. concat (map (\<lambda>j. map (f i j) [0..<d]) [0..<n])) [0..<s])\<rparr>"

text \<open>
  \<^verbatim>\<open>a[:, lo:hi]\<close> for non-negative bounds: Python clips both bounds to the number of
  columns, and the slice is empty when the clipped stop is not after the clipped start.
\<close>

definition slice_cols :: "nat \<Rightarrow> nat \<Rightarrow> array2 \<Rightarrow> array2" where
  "slice_cols lo hi a =
     (let start = min lo (snd (shape2 a)); stop = min hi (snd (shape2 a))
      in tab2 (fst (shape2 a)) (stop - start) (\<lambda>i j. at2 a i (start + j)))"

text \<open>\<^verbatim>\<open>a[:, lo:]\<close>\<close>

definition slice_cols_from :: "nat \<Rightarrow> array2 \<Rightarrow> array2" where
  "slice_cols_from lo a = slice_cols lo (snd (shape2 a)) a"

text \<open>
  \<^verbatim>\<open>a.reshape((s, m, n))\<close>: the elements stay in row-major order; numpy raises ValueError
  when the new shape holds another number of elements.
\<close>

definition reshape3 :: "nat \<times> nat \<times> nat \<Rightarrow> array2 \<Rightarrow> error + array3" where
  "reshape3 sh a =
     (case sh of (s, m, n) \<Rightarrow>
        if fst (shape2 a) * snd (shape2 a) = s * m * n
        then Inr \<lparr>shape3 = (s, m, n), data3 = data2 a\<rparr>
        else Inl ValueError)"

section \<open>make_nn_funs: the layer shapes and the number of weights\<close>

text \<open>\<^verbatim>\<open>shapes = list(zip(layer_sizes[:-1], layer_sizes[1:]))\<close>\<close>

definition shapes :: "nat list \<Rightarrow> (nat \<times> nat) list" where
  "shapes layer_sizes = zip (butlast layer_sizes) (tl layer_sizes)"

text \<open>\<^verbatim>\<open>num_weights = sum((m+1)*n for m, n in shapes)\<close>\<close>

definition num_weights :: "nat list \<Rightarrow> nat" where
  "num_weights layer_sizes = sum_list (map (\<lambda>(m, n). (m + 1) * n) (shapes layer_sizes))"

section \<open>unpack_layers\<close>

text \<open>
  One turn of the generator's loop for the layer pair \<open>(m, n)\<close>: the pair it yields, the
  weight matrix first, and the weights left for the next turn.
\<close>

definition unpack_step ::
  "nat \<Rightarrow> nat \<times> nat \<Rightarrow> array2 \<Rightarrow> error + ((array3 \<times> array3) \<times> array2)" where
  "unpack_step num_weight_sets mn weights =
     (case mn of (m, n) \<Rightarrow>
        (case reshape3 (num_weight_sets, m, n) (slice_cols 0 (m * n) weights) of
           Inl e \<Rightarrow> Inl e
         | Inr W \<Rightarrow>
             (case reshape3 (num_weight_sets, 1, n) (slice_cols (m * n) (m * n + n) weights) of
                Inl e \<Rightarrow> Inl e
              | Inr b \<Rightarrow> Inr ((W, b), slice_cols_from ((m + 1) * n) weights))))"

text \<open>Everything the generator yields, in order, when it is run to its end.\<close>

fun unpack_loop ::
  "nat \<Rightarrow> (nat \<times> nat) list \<Rightarrow> array2 \<Rightarrow> error + (array3 \<times> array3) list" where
  "unpack_loop num_weight_sets [] weights = Inr []"
| "unpack_loop num_weight_sets (mn # rest) weights =
     (case unpack_step num_weight_sets mn weights of
        Inl e \<Rightarrow> Inl e
      | Inr (Wb, weights') \<Rightarrow>
          (case unpack_loop num_weight_sets rest weights' of
             Inl e \<Rightarrow> Inl e
           | Inr pairs \<Rightarrow> Inr (Wb # pairs)))"

text \<open>\<^verbatim>\<open>num_weight_sets = len(weights)\<close> is the size of the first axis.\<close>

definition unpack_layers :: "nat list \<Rightarrow> array2 \<Rightarrow> error + (array3 \<times> array3) list" where
  "unpack_layers layer_sizes weights =
     unpack_loop (fst (shape2 weights)) (shapes layer_sizes) weights"

text \<open>The number of elements one sample holds in an array of shape \<open>(s, m, n)\<close>.\<close>

definition per_sample :: "array3 \<Rightarrow> nat" where
  "per_sample a = (case shape3 a of (s, m, n) \<Rightarrow> m * n)"

section \<open>predictions\<close>

text \<open>\<^verbatim>\<open>np.expand_dims(inputs, 0)\<close>: a new first axis of size one.\<close>

definition expand_dims0 :: "array2 \<Rightarrow> array3" where
  "expand_dims0 a = \<lparr>shape3 = (1, fst (shape2 a), snd (shape2 a)), data3 = data2 a\<rparr>"

text \<open>
  Broadcasting of two sizes of one axis: equal sizes, or one of them is 1 and is
  stretched to the other; and the index read in an axis of size \<open>a\<close> that may be stretched.
\<close>

definition bdim :: "nat \<Rightarrow> nat \<Rightarrow> nat option" where
  "bdim a b = (if a = b then Some a else if a = 1 then Some b else if b = 1 then Some a else None)"

definition bidx :: "nat \<Rightarrow> nat \<Rightarrow> nat" where
  "bidx a i = (if a = 1 then 0 else i)"

text \<open>
  \<^verbatim>\<open>np.einsum('mnd,mdo->mno', inputs, W)\<close>: for every sample \<open>m\<close> the matrix product
  of \<open>inputs[m]\<close> and \<open>W[m]\<close>, summed over \<open>d\<close>. The axes with the labels \<open>m\<close> and \<open>d\<close>
  occur in both operands and are broadcast (the script relies on it: its inputs have a first
  axis of size 1); sizes that do not broadcast raise ValueError.
\<close>

definition einsum :: "array3 \<Rightarrow> array3 \<Rightarrow> error + array3" where
  "einsum X W =
     (case shape3 X of (mx, n, dx) \<Rightarrow>
      case shape3 W of (mw, dw, p) \<Rightarrow>
        (case bdim mx mw of
           None \<Rightarrow> Inl ValueError
         | Some m \<Rightarrow>
             (case bdim dx dw of
                None \<Rightarrow> Inl ValueError
              | Some d \<Rightarrow>
                  Inr (tab3 m n p (\<lambda>s i k.
                    sum_list (map (\<lambda>j. at3 X (bidx mx s) i (bidx dx j) * at3 W (bidx mw s) (bidx dw j) k)
                               [0..<d]))))))"

text \<open>\<^verbatim>\<open>A + B\<close> on arrays of rank three, with broadcasting.\<close>

definition add3 :: "array3 \<Rightarrow> array3 \<Rightarrow> error + array3" where
  "add3 A B =
     (case shape3 A of (a0, a1, a2) \<Rightarrow>
      case shape3 B of (b0, b1, b2) \<Rightarrow>
        (case (bdim a0 b0, bdim a1 b1, bdim a2 b2) of
           (Some s, Some n, Some d) \<Rightarrow>
             Inr (tab3 s n d (\<lambda>i j k.
               at3 A (bidx a0 i) (bidx a1 j) (bidx a2 k) + at3 B (bidx b0 i) (bidx b1 j) (bidx b2 k)))
         | _ \<Rightarrow> Inl ValueError))"

text \<open>An elementwise function, such as the nonlinearity, applied to an array.\<close>

definition map3 :: "(real \<Rightarrow> real) \<Rightarrow> array3 \<Rightarrow> array3" where
  "map3 f a = \<lparr>shape3 = shape3 a, data3 = map f (data3 a)\<rparr>"

definition map2' :: "(real \<Rightarrow> real) \<Rightarrow> array2 \<Rightarrow> array2" where
  "map2' f a = \<lparr>shape2 = shape2 a, data2 = map f (data2 a)\<rparr>"

text \<open>\<^verbatim>\<open>np.einsum('mnd,mdo->mno', inputs, W) + b\<close>, the value assigned to \<^verbatim>\<open>outputs\<close>.\<close>

definition layer_outputs :: "array3 \<Rightarrow> array3 \<times> array3 \<Rightarrow> error + array3" where
  "layer_outputs inputs Wb =
     (case einsum inputs (fst Wb) of Inl e \<Rightarrow> Inl e | Inr p \<Rightarrow> add3 p (snd Wb))"

text \<open>
  The loop of \<^verbatim>\<open>predictions\<close>. It draws one pair from the generator per turn, so the
  remaining layer shapes and the remaining weights are part of its state, with the local
  variables \<^verbatim>\<open>inputs\<close> and \<^verbatim>\<open>outputs\<close>; \<^verbatim>\<open>outputs\<close> is unbound until the first turn, and
  returning it unbound raises UnboundLocalError.
\<close>

fun predictions_loop ::
  "(real \<Rightarrow> real) \<Rightarrow> nat \<Rightarrow> (nat \<times> nat) list \<Rightarrow> array2 \<Rightarrow> array3 \<Rightarrow> array3 option
   \<Rightarrow> error + array3" where
  "predictions_loop nonlinearity num_weight_sets [] weights inputs outputs =
     (case outputs of None \<Rightarrow> Inl UnboundLocalError | Some out \<Rightarrow> Inr out)"
| "predictions_loop nonlinearity num_weight_sets (mn # rest) weights inputs outputs =
     (case unpack_step num_weight_sets mn weights of
        Inl e \<Rightarrow> Inl e
      | Inr (Wb, weights') \<Rightarrow>
          (case layer_outputs inputs Wb of
             Inl e \<Rightarrow> Inl e
           | Inr out \<Rightarrow>
               predictions_loop nonlinearity num_weight_sets rest weights'
                 (map3 nonlinearity out) (Some out)))"

definition predictions ::
  "(real \<Rightarrow> real) \<Rightarrow> nat list \<Rightarrow> array2 \<Rightarrow> array2 \<Rightarrow> error + array3" where
  "predictions nonlinearity layer_sizes weights inputs =
     predictions_loop nonlinearity (fst (shape2 weights)) (shapes layer_sizes) weights
       (expand_dims0 inputs) None"

section \<open>logprob\<close>

text \<open>\<^verbatim>\<open>np.sum(a, axis=1)\<close> of an array of rank two and of rank three.\<close>

definition sum_axis1_2 :: "array2 \<Rightarrow> real list" where
  "sum_axis1_2 a =
     map (\<lambda>i. sum_list (map (\<lambda>j. at2 a i j) [0..<snd (shape2 a)])) [0..<fst (shape2 a)]"

definition sum_axis1_3 :: "array3 \<Rightarrow> array2" where
  "sum_axis1_3 a =
     (case shape3 a of (s, n, d) \<Rightarrow>
        tab2 s d (\<lambda>i k. sum_list (map (\<lambda>j. at3 a i j k) [0..<n])))"

text \<open>\<^verbatim>\<open>log_prior = -L2_reg * np.sum(weights**2, axis=1)\<close>\<close>

definition log_prior :: "real \<Rightarrow> array2 \<Rightarrow> real list" where
  "log_prior L2_reg weights =
     map (\<lambda>v. (- L2_reg) * v) (sum_axis1_2 (map2' (\<lambda>x. x ^ 2) weights))"

text \<open>
  \<^verbatim>\<open>preds - targets\<close>: the array of rank two is aligned with the last two axes of the
  array of rank three, and sizes are broadcast.
\<close>

definition sub3_2 :: "array3 \<Rightarrow> array2 \<Rightarrow> error + array3" where
  "sub3_2 A B =
     (case shape3 A of (s, a1, a2) \<Rightarrow>
      case shape2 B of (b1, b2) \<Rightarrow>
        (case (bdim a1 b1, bdim a2 b2) of
           (Some n, Some d) \<Rightarrow>
             Inr (tab3 s n d (\<lambda>i j k.
               at3 A i (bidx a1 j) (bidx a2 k) - at2 B (bidx b1 j) (bidx b2 k)))
         | _ \<Rightarrow> Inl ValueError))"

text \<open>\<^verbatim>\<open>a[:, 0]\<close>: IndexError when the second axis is empty.\<close>

definition column0 :: "array2 \<Rightarrow> error + real list" where
  "column0 a =
     (if snd (shape2 a) = 0 then Inl IndexError
      else Inr (map (\<lambda>i. at2 a i 0) [0..<fst (shape2 a)]))"

text \<open>
  \<^verbatim>\<open>log_lik = -np.sum((preds - targets)**2, axis=1)[:, 0] / noise_variance\<close>: the
  subscript binds first, then the unary minus, then the division. The operand of the
  subscript, \<^verbatim>\<open>np.sum((preds - targets)**2, axis=1)\<close>, has a name of its own here.
\<close>

definition squared_error_sums :: "array3 \<Rightarrow> array2 \<Rightarrow> error + array2" where
  "squared_error_sums preds targets =
     (case sub3_2 preds targets of
        Inl e \<Rightarrow> Inl e
      | Inr diff \<Rightarrow> Inr (sum_axis1_3 (map3 (\<lambda>x. x ^ 2) diff)))"

definition log_lik :: "real \<Rightarrow> array3 \<Rightarrow> array2 \<Rightarrow> error + real list" where
  "log_lik noise_variance preds targets =
     (case squared_error_sums preds targets of
        Inl e \<Rightarrow> Inl e
      | Inr totals \<Rightarrow>
          (case column0 totals of
             Inl e \<Rightarrow> Inl e
           | Inr c \<Rightarrow> Inr (map (\<lambda>v. (- v) / noise_variance) c)))"

text \<open>\<^verbatim>\<open>x + y\<close> on arrays of rank one, with broadcasting.\<close>

definition add1 :: "real list \<Rightarrow> real list \<Rightarrow> error + real list" where
  "add1 xs ys =
     (case bdim (length xs) (length ys) of
        None \<Rightarrow> Inl ValueError
      | Some l \<Rightarrow> Inr (map (\<lambda>i. xs ! bidx (length xs) i + ys ! bidx (length ys) i) [0..<l]))"

definition logprob ::
  "(real \<Rightarrow> real) \<Rightarrow> nat list \<Rightarrow> real \<Rightarrow> real \<Rightarrow> array2 \<Rightarrow> array2 \<Rightarrow> array2
   \<Rightarrow> error + real list" where
  "logprob nonlinearity layer_sizes L2_reg noise_variance weights inputs targets =
     (let lp = log_prior L2_reg weights
      in case predictions nonlinearity layer_sizes weights inputs of
           Inl e \<Rightarrow> Inl e
         | Inr preds \<Rightarrow>
             (case log_lik noise_variance preds targets of
                Inl e \<Rightarrow> Inl e
              | Inr ll \<Rightarrow> add1 lp ll))"

section \<open>make_nn_funs\<close>

text \<open>
  \<^verbatim>\<open>make_nn_funs\<close> computes \<^verbatim>\<open>shapes\<close> and \<^verbatim>\<open>num_weights\<close>, defines the three inner
  functions and returns \<^verbatim>\<open>num_weights, predictions, logprob\<close>. None of its statements
  raises; the result type has a place for an error so that this can be stated.
\<close>

record nn_funs =
  nf_num_weights :: nat
  nf_predictions :: "array2 \<Rightarrow> array2 \<Rightarrow> error + array3"
  nf_logprob :: "array2 \<Rightarrow> array2 \<Rightarrow> array2 \<Rightarrow> error + real list"

definition make_nn_funs :: "nat list \<Rightarrow> real \<Rightarrow> real \<Rightarrow> (real \<Rightarrow> real) \<Rightarrow> error + nn_funs" where
  "make_nn_funs layer_sizes L2_reg noise_variance nonlinearity =
     Inr \<lparr>nf_num_weights = num_weights layer_sizes,
          nf_predictions = predictions nonlinearity layer_sizes,
          nf_logprob = logprob nonlinearity layer_sizes L2_reg noise_variance\<rparr>"

section \<open>Re-packing\<close>

text \<open>
  The inverse of unpacking is not in the script. It is defined here as the specification
  words it: each array of a pair is flattened back to a block of rank two, \<open>(S, m\<cdot>n)\<close> for
  the matrix and \<open>(S, n)\<close> for the bias, and the blocks are concatenated along the second
  axis in schedule order, as \<^verbatim>\<open>np.concatenate(blocks, axis=1)\<close> does: the blocks must have
  the same number of rows, and there must be at least one block.
\<close>

definition flatten3 :: "array3 \<Rightarrow> array2" where
  "flatten3 a = (case shape3 a of (s, m, n) \<Rightarrow> \<lparr>shape2 = (s, m * n), data2 = data3 a\<rparr>)"

definition hcat :: "array2 \<Rightarrow> array2 \<Rightarrow> error + array2" where
  "hcat a b =
     (if fst (shape2 a) = fst (shape2 b)
      then Inr (tab2 (fst (shape2 a)) (snd (shape2 a) + snd (shape2 b))
                  (\<lambda>i j. if j < snd (shape2 a) then at2 a i j else at2 b i (j - snd (shape2 a))))
      else Inl ValueError)"

fun concatenate1 :: "array2 list \<Rightarrow> error + array2" where
  "concatenate1 [] = Inl ValueError"
| "concatenate1 [a] = Inr a"
| "concatenate1 (a # rest) =
     (case concatenate1 rest of Inl e \<Rightarrow> Inl e | Inr r \<Rightarrow> hcat a r)"

definition repack :: "(array3 \<times> array3) list \<Rightarrow> error + array2" where
  "repack pairs = concatenate1 (concat (map (\<lambda>(W, b). [flatten3 W, flatten3 b]) pairs))"

section \<open>The forward pass as the specification describes it\<close>

text \<open>
  The pre-activation of a layer pair: per sample the matrix product of the layer's input
  and the weight matrix, contracted over the layer's input dimension, plus the bias, the
  same for every data point. An input with a first axis of size one is shared by all
  samples.
\<close>

definition preactivation :: "array3 \<Rightarrow> array3 \<times> array3 \<Rightarrow> array3" where
  "preactivation X Wb =
     (case shape3 X of (sx, n, dx) \<Rightarrow>
      case shape3 (fst Wb) of (s, m, d) \<Rightarrow>
        tab3 s n d (\<lambda>i r k.
          sum_list (map (\<lambda>j. at3 X (if sx = 1 then 0 else i) r j * at3 (fst Wb) i j k) [0..<m])
          + at3 (snd Wb) i 0 k))"

text \<open>
  The input of the layer pair that follows the given pairs: the nonlinearity applied to the
  pre-activation of each of them in turn.
\<close>

fun hidden_input :: "(real \<Rightarrow> real) \<Rightarrow> array3 \<Rightarrow> (array3 \<times> array3) list \<Rightarrow> array3" where
  "hidden_input f X [] = X"
| "hidden_input f X (Wb # rest) = hidden_input f (map3 f (preactivation X Wb)) rest"

section \<open>Arrays for the statements\<close>

text \<open>\<^verbatim>\<open>np.zeros((s, w))\<close> and \<^verbatim>\<open>np.zeros((s, n, d))\<close>\<close>

definition zeros2 :: "nat \<Rightarrow> nat \<Rightarrow> array2" where
  "zeros2 s w = tab2 s w (\<lambda>i j. 0)"


text \<open>Building an array from its rows, for examples: \<^verbatim>\<open>np.array([[...], ...])\<close>.\<close>

definition array2_of :: "nat \<Rightarrow> real list list \<Rightarrow> array2" where
  "array2_of w rows = \<lparr>shape2 = (length rows, w), data2 = concat rows\<rparr>"

section \<open>Facts on arrays\<close>

lemma length_concat_map:
  "(\<And>x. length (g x) = k) \<Longrightarrow> length (concat (map g xs)) = length xs * k"
  by (induction xs) auto

lemma nth_concat_uniform:
  "(\<And>xs. xs \<in> set xss \<Longrightarrow> length xs = k) \<Longrightarrow> i < length xss \<Longrightarrow> j < k \<Longrightarrow>
   concat xss ! (i * k + j) = xss ! i ! j"
proof (induction xss arbitrary: i)
  case Nil
  then show ?case by simp
next
  case (Cons xs xss)
  have len: "length xs = k" using Cons.prems(1) by simp
  show ?case
  proof (cases i)
    case 0
    with len Cons.prems(3) show ?thesis by (simp add: nth_append)
  next
    case (Suc i')
    have "concat xss ! (i' * k + j) = xss ! i' ! j"
      using Cons.IH [of i'] Cons.prems Suc by simp
    with len Suc show ?thesis by (simp add: nth_append)
  qed
qed

lemma shape2_tab2 [simp]: "shape2 (tab2 s w f) = (s, w)"
  by (simp add: tab2_def)

lemma length_data2_tab2 [simp]: "length (data2 (tab2 s w f)) = s * w"
  by (simp add: tab2_def length_concat_map [where k = w])

lemma wf2_tab2 [simp]: "wf2 (tab2 s w f)"
  by (simp add: wf2_def)

lemma at2_tab2 [simp]: "i < s \<Longrightarrow> j < w \<Longrightarrow> at2 (tab2 s w f) i j = f i j"
proof -
  assume i: "i < s" and j: "j < w"
  let ?xss = "map (\<lambda>i. map (f i) [0..<w]) [0..<s]"
  have "concat ?xss ! (i * w + j) = ?xss ! i ! j"
    by (rule nth_concat_uniform) (use i j in auto)
  with i j show ?thesis by (simp add: at2_def tab2_def)
qed

lemma shape3_tab3 [simp]: "shape3 (tab3 s n d f) = (s, n, d)"
  by (simp add: tab3_def)

lemma length_data3_tab3 [simp]: "length (data3 (tab3 s n d f)) = s * n * d"
proof -
  have inner: "\<And>i. length (concat (map (\<lambda>j. map (f i j) [0..<d]) [0..<n])) = n * d"
    by (simp add: length_concat_map [where k = d])
  show ?thesis
    by (simp add: tab3_def length_concat_map [where k = "n * d", OF inner])
qed

lemma wf3_tab3 [simp]: "wf3 (tab3 s n d f)"
  by (simp add: wf3_def)

lemma at3_tab3 [simp]:
  assumes "i < s" "j < n" "k < d"
  shows "at3 (tab3 s n d f) i j k = f i j k"
proof -
  let ?row = "\<lambda>i. concat (map (\<lambda>j. map (f i j) [0..<d]) [0..<n])"
  have inner_len: "\<And>i. length (?row i) = n * d"
    by (simp add: length_concat_map [where k = d])
  have jk: "j * d + k < n * d"
  proof -
    have "j * d + k < j * d + d" using assms(3) by simp
    also have "\<dots> = Suc j * d" by simp
    also have "\<dots> \<le> n * d" using assms(2) by (intro mult_le_mono1) simp
    finally show ?thesis .
  qed
  have "concat (map ?row [0..<s]) ! (i * (n * d) + (j * d + k)) = map ?row [0..<s] ! i ! (j * d + k)"
    by (rule nth_concat_uniform) (use assms(1) jk inner_len in auto)
  also have "\<dots> = ?row i ! (j * d + k)" using assms(1) by simp
  also have "\<dots> = map (\<lambda>j. map (f i j) [0..<d]) [0..<n] ! j ! k"
    by (rule nth_concat_uniform) (use assms in auto)
  also have "\<dots> = f i j k" using assms by simp
  finally have "concat (map ?row [0..<s]) ! (i * (n * d) + (j * d + k)) = f i j k" .
  moreover have "(i * n + j) * d + k = i * (n * d) + (j * d + k)"
    by (simp add: algebra_simps)
  ultimately have "concat (map ?row [0..<s]) ! ((i * n + j) * d + k) = f i j k"
    by (simp only:)
  then show ?thesis by (simp add: at3_def tab3_def)
qed

section \<open>An example\<close>

text \<open>
  The model computes. Two weight samples for the layer sizes \<open>[1, 2, 1]\<close> unpack into the
  matrix and the bias of each of the two layer pairs. For these layer sizes, the identity
  as nonlinearity, the weight sample \<open>1, \<dots>, 7\<close> and the single input \<open>1\<close>, the hidden layer is
  \<open>(1\<cdot>1 + 3, 1\<cdot>2 + 4) = (4, 6)\<close> and the prediction is \<open>4\<cdot>5 + 6\<cdot>6 + 7 = 63\<close>; with the
  target \<open>60\<close>, no regularisation and the noise variance \<open>1\<close>, the log-posterior is
  \<open>- (63 - 60)\<^sup>2 = - 9\<close>. With two output columns, only the first enters the result.
\<close>

lemma unpack_layers_example:
  "unpack_layers [1, 2, 1] (array2_of 7 [[1, 2, 3, 4, 5, 6, 7], [8, 9, 10, 11, 12, 13, 14]]) =
   Inr [(\<lparr>shape3 = (2, 1, 2), data3 = [1, 2, 8, 9]\<rparr>,
         \<lparr>shape3 = (2, 1, 2), data3 = [3, 4, 10, 11]\<rparr>),
        (\<lparr>shape3 = (2, 2, 1), data3 = [5, 6, 12, 13]\<rparr>,
         \<lparr>shape3 = (2, 1, 1), data3 = [7, 14]\<rparr>)]"
  by code_simp

lemma predictions_example:
  "predictions (\<lambda>x. x) [1, 2, 1] (array2_of 7 [[1, 2, 3, 4, 5, 6, 7]]) (array2_of 1 [[1]]) =
   Inr \<lparr>shape3 = (1, 1, 1), data3 = [63]\<rparr>"
  by code_simp

lemma logprob_example:
  "logprob (\<lambda>x. x) [1, 2, 1] 0 1 (array2_of 7 [[1, 2, 3, 4, 5, 6, 7]]) (array2_of 1 [[1]])
     (array2_of 1 [[60]]) = Inr [- 9]"
  by code_simp

lemma predictions_two_columns_example:
  "predictions (\<lambda>x. max x 0) [1, 2, 2] (array2_of 10 [[1, 2, 3, 4, 5, 6, 7, 8, 9, 10]])
     (array2_of 1 [[1], [2]]) =
   Inr \<lparr>shape3 = (1, 2, 2), data3 = [71, 82, 90, 104]\<rparr>"
  by code_simp

lemma logprob_two_columns_example:
  "logprob (\<lambda>x. max x 0) [1, 2, 2] 0 1 (array2_of 10 [[1, 2, 3, 4, 5, 6, 7, 8, 9, 10]])
     (array2_of 1 [[1], [2]]) (array2_of 1 [[71], [87]]) = Inr [- 9]"
  by code_simp

lemma errors_example:
  "predictions (\<lambda>x. x) [1] (array2_of 0 [[]]) (array2_of 1 [[1]]) = Inl UnboundLocalError"
  "predictions (\<lambda>x. x) [1, 2, 1] (array2_of 6 [[1, 2, 3, 4, 5, 6]]) (array2_of 1 [[1]]) =
   Inl ValueError"
  "predictions (\<lambda>x. x) [2, 1] (array2_of 3 [[1, 2, 3]]) (array2_of 3 [[1, 1, 1]]) =
   Inl ValueError"
  by code_simp+

section \<open>Weight unpacking: one turn of the generator\<close>

lemma shape2_slice_cols [simp]:
  "shape2 (slice_cols lo hi a) =
     (fst (shape2 a), min hi (snd (shape2 a)) - min lo (snd (shape2 a)))"
  by (simp add: slice_cols_def Let_def)

lemma shape2_slice_cols_from [simp]:
  "shape2 (slice_cols_from lo a) = (fst (shape2 a), snd (shape2 a) - lo)"
  by (simp add: slice_cols_from_def)

lemma wf2_slice_cols [simp]: "wf2 (slice_cols lo hi a)"
  by (simp add: slice_cols_def Let_def)

lemma wf2_slice_cols_from [simp]: "wf2 (slice_cols_from lo a)"
  by (simp add: slice_cols_from_def)

lemma unpack_step_ok:
  assumes "shape2 w = (S, Wd)" and "(m + 1) * n \<le> Wd"
  shows "unpack_step S (m, n) w =
           Inr ((\<lparr>shape3 = (S, m, n), data3 = data2 (slice_cols 0 (m * n) w)\<rparr>,
                 \<lparr>shape3 = (S, 1, n), data3 = data2 (slice_cols (m * n) (m * n + n) w)\<rparr>),
                slice_cols_from ((m + 1) * n) w)"
proof -
  have "m * n \<le> Wd" "m * n + n \<le> Wd" using assms(2) by simp_all
  then show ?thesis
    using assms(1) by (simp add: unpack_step_def reshape3_def min_absorb1)
qed

lemma length_shapes: "length (shapes ls) = length ls - 1"
  by (simp add: shapes_def)

lemma nth_shapes: "k < length ls - 1 \<Longrightarrow> shapes ls ! k = (ls ! k, ls ! Suc k)"
  by (simp add: shapes_def nth_butlast nth_tl)

lemma num_weights_sum:
  "num_weights ls = (\<Sum>k<length ls - 1. (ls ! k + 1) * ls ! Suc k)"
proof -
  have "num_weights ls = (\<Sum>k = 0..<length (shapes ls). (\<lambda>(m, n). (m + 1) * n) (shapes ls ! k))"
    by (simp add: num_weights_def sum_list_sum_nth)
  also have "\<dots> = (\<Sum>k = 0..<length ls - 1. (ls ! k + 1) * ls ! Suc k)"
    by (rule sum.cong) (simp_all add: length_shapes nth_shapes)
  finally show ?thesis by (simp add: atLeast0LessThan)
qed

section \<open>The log-prior term\<close>

lemma idx2_less: "i < s \<Longrightarrow> j < w \<Longrightarrow> i * w + j < s * (w::nat)"
proof -
  assume i: "i < s" and j: "j < w"
  have "i * w + j < i * w + w" using j by simp
  also have "\<dots> = Suc i * w" by simp
  also have "\<dots> \<le> s * w" using i by (intro mult_le_mono1) simp
  finally show ?thesis .
qed

lemma shape2_map2' [simp]: "shape2 (map2' f a) = shape2 a"
  by (simp add: map2'_def)

lemma wf2_map2' [simp]: "wf2 (map2' f a) = wf2 a"
  by (simp add: map2'_def wf2_def)

lemma at2_map2':
  "wf2 a \<Longrightarrow> i < fst (shape2 a) \<Longrightarrow> j < snd (shape2 a) \<Longrightarrow> at2 (map2' f a) i j = f (at2 a i j)"
  using idx2_less [of i "fst (shape2 a)" j "snd (shape2 a)"]
  by (simp add: at2_def map2'_def wf2_def)

lemma sum_list_upt: "sum_list (map f [0..<n]) = (\<Sum>j<n. f j)"
  by (simp add: interv_sum_list_conv_sum_set_nat atLeast0LessThan)

lemma length_sum_axis1_2 [simp]: "length (sum_axis1_2 a) = fst (shape2 a)"
  by (simp add: sum_axis1_2_def)

lemma length_log_prior [simp]: "length (log_prior L2_reg weights) = fst (shape2 weights)"
  by (simp add: log_prior_def)

lemma nth_log_prior:
  assumes "wf2 weights" and "s < fst (shape2 weights)"
  shows "log_prior L2_reg weights ! s = - L2_reg * (\<Sum>w<snd (shape2 weights). (at2 weights s w)\<^sup>2)"
proof -
  have "sum_list (map (\<lambda>j. at2 (map2' (\<lambda>x. x\<^sup>2) weights) s j) [0..<snd (shape2 weights)]) =
        (\<Sum>w<snd (shape2 weights). (at2 weights s w)\<^sup>2)"
    unfolding sum_list_upt by (rule sum.cong) (simp_all add: at2_map2' assms)
  with assms(2) show ?thesis
    by (simp add: log_prior_def sum_axis1_2_def)
qed

section \<open>Construction\<close>

text \<open>
  Claim C5 says that construction with a non-positive noise variance or a negative
  regularisation coefficient raises a configuration error. \<^verbatim>\<open>make_nn_funs\<close> reads neither
  value: with \<open>L2_reg = -1\<close> and \<open>noise_variance = 0\<close> it returns its three results.
\<close>

theorem make_nn_funs_no_validation_counterexample:
  "\<not> isl (make_nn_funs [1, 20, 20, 1] (- 1) 0 tanh)"
  by (simp add: make_nn_funs_def)

text \<open>
  Claim C5, amended. For every regularisation coefficient and every noise variance,
  construction raises nothing: it returns the number of weights, which is the sum of
  \<open>(m + 1) \<cdot> n\<close> over the adjacent pairs of layer sizes, and the two functions, which
  keep the coefficient and the variance as they were given.
\<close>

theorem make_nn_funs_returns:
  "\<exists>funs. make_nn_funs layer_sizes L2_reg noise_variance nonlinearity = Inr funs \<and>
     nf_num_weights funs = (\<Sum>k<length layer_sizes - 1. (layer_sizes ! k + 1) * layer_sizes ! Suc k) \<and>
     nf_predictions funs = predictions nonlinearity layer_sizes \<and>
     nf_logprob funs = logprob nonlinearity layer_sizes L2_reg noise_variance"
  by (simp add: make_nn_funs_def num_weights_sum)

section \<open>Round trip: unpacking and re-packing\<close>

lemma tab2_cong:
  assumes "\<And>i j. i < s \<Longrightarrow> j < w \<Longrightarrow> f i j = g i j"
  shows "tab2 s w f = tab2 s w g"
proof -
  have "map (f i) [0..<w] = map (g i) [0..<w]" if "i < s" for i
    by (rule map_cong) (simp_all add: assms that)
  then have "map (\<lambda>i. map (f i) [0..<w]) [0..<s] = map (\<lambda>i. map (g i) [0..<w]) [0..<s]"
    by (intro map_cong) simp_all
  then show ?thesis unfolding tab2_def by (simp only:)
qed

lemma tab2_at2:
  assumes "wf2 a" and "shape2 a = (s, w)"
  shows "tab2 s w (at2 a) = a"
proof -
  have len: "length (data2 a) = s * w" using assms by (simp add: wf2_def)
  have "data2 (tab2 s w (at2 a)) = data2 a"
  proof (rule nth_equalityI)
    show "length (data2 (tab2 s w (at2 a))) = length (data2 a)" using len by simp
  next
    fix k assume "k < length (data2 (tab2 s w (at2 a)))"
    then have k: "k < s * w" by simp
    then have w: "0 < w" by (cases w) simp_all
    have i: "k div w < s" using k by (simp add: less_mult_imp_div_less)
    have j: "k mod w < w" using w by simp
    have "at2 (tab2 s w (at2 a)) (k div w) (k mod w) = at2 a (k div w) (k mod w)"
      using i j by simp
    then show "data2 (tab2 s w (at2 a)) ! k = data2 a ! k"
      using assms(2) by (simp add: at2_def)
  qed
  then show ?thesis using assms(2) by (simp add: tab2_def)
qed

lemma at2_slice_cols:
  "shape2 a = (s, w) \<Longrightarrow> hi \<le> w \<Longrightarrow> i < s \<Longrightarrow> j < hi - lo \<Longrightarrow>
   at2 (slice_cols lo hi a) i j = at2 a i (lo + j)"
  by (simp add: slice_cols_def min_absorb1)

lemma slice_cols_from_tab2:
  "shape2 a = (s, w) \<Longrightarrow> lo \<le> w \<Longrightarrow>
   slice_cols_from lo a = tab2 s (w - lo) (\<lambda>i j. at2 a i (lo + j))"
  by (simp add: slice_cols_from_def slice_cols_def min_absorb1)

lemma slice_cols_from_0:
  assumes "wf2 a" shows "slice_cols_from 0 a = a"
proof -
  obtain s w where sh: "shape2 a = (s, w)" by (cases "shape2 a")
  have "slice_cols_from 0 a = tab2 s w (\<lambda>i j. at2 a i j)"
    using slice_cols_from_tab2 [OF sh, of 0] by simp
  then show ?thesis using tab2_at2 [OF assms sh] by simp
qed

lemma hcat_slices:
  assumes "shape2 a = (s, w)" and "lo \<le> hi" and "hi \<le> w"
  shows "hcat (slice_cols lo hi a) (slice_cols_from hi a) = Inr (slice_cols_from lo a)"
proof -
  have sh1: "shape2 (slice_cols lo hi a) = (s, hi - lo)"
    using assms by (simp add: min_absorb1)
  have sh2: "shape2 (slice_cols_from hi a) = (s, w - hi)"
    using assms by simp
  have width: "hi - lo + (w - hi) = w - lo" using assms(2,3) by simp
  have "tab2 s (w - lo)
          (\<lambda>i j. if j < hi - lo then at2 (slice_cols lo hi a) i j
                 else at2 (slice_cols_from hi a) i (j - (hi - lo))) =
        tab2 s (w - lo) (\<lambda>i j. at2 a i (lo + j))"
  proof (rule tab2_cong)
    fix i j assume i: "i < s" and j: "j < w - lo"
    show "(if j < hi - lo then at2 (slice_cols lo hi a) i j
           else at2 (slice_cols_from hi a) i (j - (hi - lo))) = at2 a i (lo + j)"
    proof (cases "j < hi - lo")
      case True
      then show ?thesis
        using assms i by (simp add: at2_slice_cols)
    next
      case False
      then have "j - (hi - lo) < w - hi" using j assms(2,3) by simp
      moreover have "hi + (j - (hi - lo)) = lo + j" using False assms(2) by simp
      ultimately show ?thesis
        using False assms i by (simp add: slice_cols_from_tab2 add.commute)
    qed
  qed
  moreover have "hcat (slice_cols lo hi a) (slice_cols_from hi a) =
      Inr (tab2 s (hi - lo + (w - hi))
          (\<lambda>i j. if j < hi - lo then at2 (slice_cols lo hi a) i j
                 else at2 (slice_cols_from hi a) i (j - (hi - lo))))"
    unfolding hcat_def sh1 sh2 fst_conv snd_conv by simp
  moreover have "slice_cols_from lo a = tab2 s (w - lo) (\<lambda>i j. at2 a i (lo + j))"
    using assms by (intro slice_cols_from_tab2) simp_all
  ultimately show ?thesis by (simp only: width)
qed

lemma flatten3_reshaped:
  "shape2 a = (s, m * n) \<Longrightarrow> flatten3 \<lparr>shape3 = (s, m, n), data3 = data2 a\<rparr> = a"
  by (simp add: flatten3_def)

lemma concatenate1_Cons:
  "concatenate1 rest = Inr r \<Longrightarrow> concatenate1 (a # rest) = hcat a r"
  by (cases rest) simp_all

lemma repack_Cons:
  "repack pairs = Inr r \<Longrightarrow>
   repack ((W, b) # pairs) =
     (case hcat (flatten3 b) r of Inl e \<Rightarrow> Inl e | Inr r' \<Rightarrow> hcat (flatten3 W) r')"
  by (simp add: repack_def concatenate1_Cons)

lemma repack_single: "repack [(W, b)] = hcat (flatten3 W) (flatten3 b)"
  by (simp add: repack_def)

lemma repack_unpack_loop:
  assumes "wf2 w" and "shape2 w = (S, sum_list (map (\<lambda>(m, n). (m + 1) * n) shs))"
    and "shs \<noteq> []"
  shows "\<exists>pairs. unpack_loop S shs w = Inr pairs \<and> repack pairs = Inr w"
  using assms
proof (induction shs arbitrary: w)
  case Nil
  then show ?case by simp
next
  case (Cons mn shs)
  obtain m n where mn: "mn = (m, n)" by (cases mn)
  let ?rest = "sum_list (map (\<lambda>(m, n). (m + 1) * n) shs)"
  let ?A = "slice_cols 0 (m * n) w"
  let ?B = "slice_cols (m * n) (m * n + n) w"
  let ?w' = "slice_cols_from ((m + 1) * n) w"
  have sh: "shape2 w = (S, (m + 1) * n + ?rest)" using Cons.prems mn by simp
  have step: "unpack_step S (m, n) w =
           Inr ((\<lparr>shape3 = (S, m, n), data3 = data2 ?A\<rparr>,
                 \<lparr>shape3 = (S, 1, n), data3 = data2 ?B\<rparr>), ?w')"
    by (rule unpack_step_ok [OF sh]) simp
  have shA: "shape2 ?A = (S, m * n)" using sh by (simp add: min_absorb1)
  have shB: "shape2 ?B = (S, 1 * n)" using sh by (simp add: min_absorb1)
  have fA: "flatten3 \<lparr>shape3 = (S, m, n), data3 = data2 ?A\<rparr> = ?A"
    by (rule flatten3_reshaped [OF shA])
  have fB: "flatten3 \<lparr>shape3 = (S, 1, n), data3 = data2 ?B\<rparr> = ?B"
    by (rule flatten3_reshaped [OF shB])
  have AB: "hcat ?A (slice_cols_from (m * n) w) = Inr w"
    using hcat_slices [OF sh, of 0 "m * n"] slice_cols_from_0 [OF Cons.prems(1)] by simp
  show ?case
  proof (cases "shs = []")
    case True
    then have "?B = slice_cols_from (m * n) w"
      using sh by (simp add: slice_cols_from_def add.commute)
    with AB have "hcat ?A ?B = Inr w" by (simp only:)
    then have "repack [(\<lparr>shape3 = (S, m, n), data3 = data2 ?A\<rparr>,
                 \<lparr>shape3 = (S, 1, n), data3 = data2 ?B\<rparr>)] = Inr w"
      unfolding repack_single fA fB .
    with step mn True show ?thesis by simp
  next
    case False
    have sh': "shape2 ?w' = (S, ?rest)" using sh by simp
    from Cons.IH [OF _ sh' False] obtain pairs where
      loop: "unpack_loop S shs ?w' = Inr pairs" and rp: "repack pairs = Inr ?w'"
      by auto
    have eq: "(m + 1) * n = m * n + n" by simp
    have "hcat ?B (slice_cols_from (m * n + n) w) = Inr (slice_cols_from (m * n) w)"
      by (rule hcat_slices [OF sh]) simp_all
    then have Bw': "hcat ?B ?w' = Inr (slice_cols_from (m * n) w)"
      by (simp only: eq)
    have "repack ((\<lparr>shape3 = (S, m, n), data3 = data2 ?A\<rparr>,
                 \<lparr>shape3 = (S, 1, n), data3 = data2 ?B\<rparr>) # pairs) = Inr w"
      unfolding repack_Cons [OF rp] fA fB Bw' using AB by simp
    with step mn loop show ?thesis by simp
  qed
qed

text \<open>
  Claim C4. For a layer schedule of length at least two and a weight array of shape
  \<open>(S, W)\<close> with \<open>W = num_weights\<close>, unpacking the array into its pairs and re-packing
  the pairs (each matrix flattened to a block \<open>(S, m\<cdot>n)\<close>, each bias to a block \<open>(S, n)\<close>,
  all blocks concatenated along the second axis in schedule order) gives the original
  array back, shape and elements.
\<close>

theorem repack_unpack_layers:
  assumes "wf2 weights" and "shape2 weights = (S, num_weights layer_sizes)"
    and "2 \<le> length layer_sizes"
  shows "\<exists>pairs. unpack_layers layer_sizes weights = Inr pairs \<and> repack pairs = Inr weights"
proof -
  have "length (shapes layer_sizes) = length layer_sizes - 1"
    by (simp add: shapes_def)
  with assms(3) have "shapes layer_sizes \<noteq> []" by auto
  with repack_unpack_loop [of weights S "shapes layer_sizes"] assms(1,2)
  show ?thesis by (simp add: unpack_layers_def num_weights_def)
qed

theorem repack_unpack_layers_witness:
  "\<exists>pairs. unpack_layers [1, 2, 1] (array2_of 7 [[1, 2, 3, 4, 5, 6, 7], [7, 6, 5, 4, 3, 2, 1]]) = Inr pairs \<and>
     repack pairs = Inr (array2_of 7 [[1, 2, 3, 4, 5, 6, 7], [7, 6, 5, 4, 3, 2, 1]])"
proof -
  let ?w = "array2_of 7 [[1, 2, 3, 4, 5, 6, 7], [7, 6, 5, 4, 3, 2, 1]]"
  have 1: "wf2 ?w" by (simp add: wf2_def array2_of_def)
  have 2: "shape2 ?w = (2, num_weights [1, 2, 1])"
    by (simp add: array2_of_def num_weights_def shapes_def)
  have 3: "2 \<le> length [1, 2, 1::nat]" by simp
  show ?thesis by (rule repack_unpack_layers [OF 1 2 3])
qed

section \<open>One layer of the forward pass\<close>

lemma tab3_cong:
  assumes "\<And>i j k. i < s \<Longrightarrow> j < n \<Longrightarrow> k < d \<Longrightarrow> f i j k = g i j k"
  shows "tab3 s n d f = tab3 s n d g"
proof -
  have "map (f i j) [0..<d] = map (g i j) [0..<d]" if "i < s" "j < n" for i j
    by (rule map_cong) (simp_all add: assms that)
  then have "map (\<lambda>j. map (f i j) [0..<d]) [0..<n] = map (\<lambda>j. map (g i j) [0..<d]) [0..<n]"
    if "i < s" for i
    using that by (intro map_cong) simp_all
  then have "map (\<lambda>i. concat (map (\<lambda>j. map (f i j) [0..<d]) [0..<n])) [0..<s] =
             map (\<lambda>i. concat (map (\<lambda>j. map (g i j) [0..<d]) [0..<n])) [0..<s]"
    by (intro map_cong arg_cong [where f = concat]) simp_all
  then show ?thesis unfolding tab3_def by (simp only:)
qed

lemma bidx_less [simp]: "i < a \<Longrightarrow> bidx a i = i"
  by (auto simp: bidx_def)

lemma bidx_1 [simp]: "bidx (Suc 0) i = 0"
  by (simp add: bidx_def)

lemma bdim_same [simp]: "bdim a a = Some a"
  by (simp add: bdim_def)

lemma bdim_1_right [simp]: "bdim a (Suc 0) = Some a"
  by (auto simp: bdim_def)

lemma bdim_1_left [simp]: "bdim (Suc 0) a = Some a"
  by (auto simp: bdim_def)

lemma einsum_ok:
  assumes "shape3 X = (sx, N, m)" and "sx = 1 \<or> sx = S" and "shape3 W = (S, m, n)"
  shows "einsum X W =
    Inr (tab3 S N n (\<lambda>i r k.
      sum_list (map (\<lambda>j. at3 X (if sx = 1 then 0 else i) r j * at3 W i j k) [0..<m])))"
proof -
  have b: "bdim sx S = Some S" using assms(2) by auto
  have "tab3 S N n (\<lambda>s i k.
          sum_list (map (\<lambda>j. at3 X (bidx sx s) i (bidx m j) * at3 W (bidx S s) (bidx m j) k) [0..<m])) =
        tab3 S N n (\<lambda>i r k.
          sum_list (map (\<lambda>j. at3 X (if sx = 1 then 0 else i) r j * at3 W i j k) [0..<m]))"
  proof (rule tab3_cong)
    fix i r k assume i: "i < S" "r < N" "k < n"
    have "map (\<lambda>j. at3 X (bidx sx i) r (bidx m j) * at3 W (bidx S i) (bidx m j) k) [0..<m] =
          map (\<lambda>j. at3 X (if sx = 1 then 0 else i) r j * at3 W i j k) [0..<m]"
      by (rule map_cong) (use i in \<open>simp_all add: bidx_def [of sx]\<close>)
    then show "sum_list (map (\<lambda>j. at3 X (bidx sx i) r (bidx m j) * at3 W (bidx S i) (bidx m j) k) [0..<m]) =
          sum_list (map (\<lambda>j. at3 X (if sx = 1 then 0 else i) r j * at3 W i j k) [0..<m])"
      by (simp only:)
  qed
  then show ?thesis
    by (simp add: einsum_def assms(1,3) b)
qed

lemma add3_bias:
  assumes "shape3 P = (S, N, n)" and "shape3 b = (S, 1, n)"
  shows "add3 P b = Inr (tab3 S N n (\<lambda>i r k. at3 P i r k + at3 b i 0 k))"
proof -
  have "tab3 S N n (\<lambda>i j k. at3 P (bidx S i) (bidx N j) (bidx n k)
                            + at3 b (bidx S i) (bidx 1 j) (bidx n k)) =
        tab3 S N n (\<lambda>i r k. at3 P i r k + at3 b i 0 k)"
    by (rule tab3_cong) simp
  then show ?thesis
    by (simp add: add3_def assms)
qed

lemma layer_outputs_preactivation:
  assumes "shape3 X = (sx, N, m)" and "sx = 1 \<or> sx = S"
    and "shape3 W = (S, m, n)" and "shape3 b = (S, 1, n)"
  shows "layer_outputs X (W, b) = Inr (preactivation X (W, b))"
proof -
  let ?P = "tab3 S N n (\<lambda>i r k.
      sum_list (map (\<lambda>j. at3 X (if sx = 1 then 0 else i) r j * at3 W i j k) [0..<m]))"
  have e: "einsum X W = Inr ?P" by (rule einsum_ok [OF assms(1,2,3)])
  have a: "add3 ?P b = Inr (tab3 S N n (\<lambda>i r k. at3 ?P i r k + at3 b i 0 k))"
    by (rule add3_bias) (simp_all add: assms(4))
  have "tab3 S N n (\<lambda>i r k. at3 ?P i r k + at3 b i 0 k) = preactivation X (W, b)"
    unfolding preactivation_def assms(1,3) fst_conv snd_conv prod.case
    by (rule tab3_cong) simp
  with e a show ?thesis by (simp add: layer_outputs_def)
qed

lemma shape3_preactivation:
  "shape3 X = (sx, N, m) \<Longrightarrow> shape3 W = (S, m', n) \<Longrightarrow> shape3 (preactivation X (W, b)) = (S, N, n)"
  by (simp add: preactivation_def)

lemma wf3_preactivation [simp]: "wf3 (preactivation X Wb)"
  by (simp add: preactivation_def split: prod.splits)

lemma shape3_map3 [simp]: "shape3 (map3 f a) = shape3 a"
  by (simp add: map3_def)

lemma wf3_map3 [simp]: "wf3 (map3 f a) = wf3 a"
  by (simp add: map3_def wf3_def)

section \<open>The loop of predictions\<close>

lemma shapes_Cons2: "shapes (a # b # l) = (a, b) # shapes (b # l)"
  by (simp add: shapes_def)

lemma shapes_single: "shapes [a] = []"
  by (simp add: shapes_def)

lemma predictions_loop_run:
  assumes "shape2 w = (S, sum_list (map (\<lambda>(m, n). (m + 1) * n) (shapes (m0 # l))))"
    and "shape3 X = (sx, N, m0)" and "sx = 1 \<or> sx = S"
  shows "\<exists>pairs. unpack_loop S (shapes (m0 # l)) w = Inr pairs \<and> length pairs = length l \<and>
         predictions_loop f S (shapes (m0 # l)) w X out =
           (if pairs = [] then (case out of None \<Rightarrow> Inl UnboundLocalError | Some y \<Rightarrow> Inr y)
            else Inr (preactivation (hidden_input f X (butlast pairs)) (last pairs))) \<and>
         (pairs \<noteq> [] \<longrightarrow>
            (\<exists>sx' m. shape3 (hidden_input f X (butlast pairs)) = (sx', N, m) \<and>
               (sx' = 1 \<or> sx' = S) \<and>
               shape3 (fst (last pairs)) = (S, m, last (m0 # l)) \<and>
               shape3 (snd (last pairs)) = (S, 1, last (m0 # l))))"
  using assms
proof (induction l arbitrary: m0 w X sx out)
  case Nil
  then show ?case by (simp add: shapes_single)
next
  case (Cons n l)
  let ?rest = "sum_list (map (\<lambda>(m, n). (m + 1) * n) (shapes (n # l)))"
  let ?W = "\<lparr>shape3 = (S, m0, n), data3 = data2 (slice_cols 0 (m0 * n) w)\<rparr>"
  let ?b = "\<lparr>shape3 = (S, 1, n), data3 = data2 (slice_cols (m0 * n) (m0 * n + n) w)\<rparr>"
  let ?w' = "slice_cols_from ((m0 + 1) * n) w"
  let ?out = "preactivation X (?W, ?b)"
  have sh: "shape2 w = (S, (m0 + 1) * n + ?rest)"
    using Cons.prems(1) by (simp add: shapes_Cons2)
  have step: "unpack_step S (m0, n) w = Inr ((?W, ?b), ?w')"
    by (rule unpack_step_ok [OF sh]) simp
  have lay: "layer_outputs X (?W, ?b) = Inr ?out"
    by (rule layer_outputs_preactivation [OF Cons.prems(2,3)]) simp_all
  have sh_out: "shape3 ?out = (S, N, n)"
    by (rule shape3_preactivation [OF Cons.prems(2)]) simp
  have sh': "shape2 ?w' = (S, ?rest)" using sh by simp
  have shX: "shape3 (map3 f ?out) = (S, N, n)" using sh_out by simp
  from Cons.IH [OF sh' shX, of "Some ?out"] obtain pairs where
    un: "unpack_loop S (shapes (n # l)) ?w' = Inr pairs" and len: "length pairs = length l"
    and run: "predictions_loop f S (shapes (n # l)) ?w' (map3 f ?out) (Some ?out) =
           (if pairs = [] then Inr ?out
            else Inr (preactivation (hidden_input f (map3 f ?out) (butlast pairs)) (last pairs)))"
    and shp: "pairs \<noteq> [] \<longrightarrow>
            (\<exists>sx' m. shape3 (hidden_input f (map3 f ?out) (butlast pairs)) = (sx', N, m) \<and>
               (sx' = 1 \<or> sx' = S) \<and>
               shape3 (fst (last pairs)) = (S, m, last (n # l)) \<and>
               shape3 (snd (last pairs)) = (S, 1, last (n # l)))"
    by auto
  have un': "unpack_loop S (shapes (m0 # n # l)) w = Inr ((?W, ?b) # pairs)"
    using step un by (simp add: shapes_Cons2)
  have run': "predictions_loop f S (shapes (m0 # n # l)) w X out =
           (if pairs = [] then Inr ?out
            else Inr (preactivation (hidden_input f (map3 f ?out) (butlast pairs)) (last pairs)))"
    using step lay run by (simp add: shapes_Cons2)
  show ?case
  proof (cases "pairs = []")
    case True
    with len have "l = []" by simp
    with True un' run' Cons.prems(2,3) show ?thesis by simp
  next
    case False
    with un' run' shp len show ?thesis by simp
  qed
qed

lemma predictions_run:
  assumes "shape2 weights = (S, num_weights ls)" and "shape2 inputs = (N, hd ls)"
    and "2 \<le> length ls"
  shows "\<exists>pairs h sx m.
      unpack_layers ls weights = Inr pairs \<and> pairs \<noteq> [] \<and>
      h = hidden_input f (expand_dims0 inputs) (butlast pairs) \<and>
      shape3 h = (sx, N, m) \<and> (sx = 1 \<or> sx = S) \<and>
      shape3 (fst (last pairs)) = (S, m, last ls) \<and>
      shape3 (snd (last pairs)) = (S, 1, last ls) \<and>
      predictions f ls weights inputs = Inr (preactivation h (last pairs))"
proof -
  from assms(3) obtain m0 l where ls: "ls = m0 # l"
    by (cases ls) auto
  with assms(3) have l: "l \<noteq> []" by auto
  have 1: "shape2 weights = (S, sum_list (map (\<lambda>(m, n). (m + 1) * n) (shapes (m0 # l))))"
    using assms(1) by (simp add: num_weights_def ls)
  have 2: "shape3 (expand_dims0 inputs) = (1, N, m0)"
    using assms(2) by (simp add: expand_dims0_def ls)
  from predictions_loop_run [OF 1 2, of f None] l
  show ?thesis
    by (auto simp: unpack_layers_def predictions_def assms(1) ls)
qed

lemma at3_preactivation:
  assumes "shape3 X = (sx, N, dx)" and "shape3 W = (S, m, n)"
    and "s < S" and "r < N" and "k < n"
  shows "at3 (preactivation X (W, b)) s r k =
         (\<Sum>j<m. at3 X (if sx = 1 then 0 else s) r j * at3 W s j k) + at3 b s 0 k"
  using assms by (simp add: preactivation_def sum_list_upt)

text \<open>
  Claim C2. For a layer schedule of length at least two, a weight array of shape
  \<open>(S, num_weights)\<close> and inputs of shape \<open>(N, D)\<close> with \<open>D\<close> the first layer size,
  \<^verbatim>\<open>predictions\<close> returns an array of shape \<open>(S, N, O)\<close>, \<open>O\<close> the last layer size. The
  nonlinearity is applied to the pre-activation of every layer pair but the last, which
  gives the input \<open>h\<close> of the last pair; the array returned is the pre-activation of the last
  pair on \<open>h\<close>, the matrix product per sample plus the bias, with no nonlinearity applied.
\<close>

theorem predictions_last_layer_raw:
  assumes "shape2 weights = (S, num_weights ls)" and "shape2 inputs = (N, hd ls)"
    and "2 \<le> length ls"
  shows "\<exists>pairs h W b m out.
      unpack_layers ls weights = Inr pairs \<and> pairs \<noteq> [] \<and> last pairs = (W, b) \<and>
      h = hidden_input nonlinearity (expand_dims0 inputs) (butlast pairs) \<and>
      predictions nonlinearity ls weights inputs = Inr out \<and>
      out = preactivation h (W, b) \<and>
      shape3 out = (S, N, last ls) \<and> shape3 W = (S, m, last ls) \<and>
      (\<forall>s<S. \<forall>r<N. \<forall>k<last ls.
         at3 out s r k =
           (\<Sum>j<m. at3 h (if fst (shape3 h) = 1 then 0 else s) r j * at3 W s j k) + at3 b s 0 k)"
proof -
  from predictions_run [OF assms, of nonlinearity] obtain pairs h sx m where
    un: "unpack_layers ls weights = Inr pairs" "pairs \<noteq> []"
    and h: "h = hidden_input nonlinearity (expand_dims0 inputs) (butlast pairs)"
    and shh: "shape3 h = (sx, N, m)"
    and shW: "shape3 (fst (last pairs)) = (S, m, last ls)"
    and run: "predictions nonlinearity ls weights inputs = Inr (preactivation h (last pairs))"
    by blast
  obtain W b where Wb: "last pairs = (W, b)" by (cases "last pairs")
  have shW': "shape3 W = (S, m, last ls)" using shW Wb by simp
  have sho: "shape3 (preactivation h (W, b)) = (S, N, last ls)"
    by (rule shape3_preactivation [OF shh shW'])
  have "at3 (preactivation h (W, b)) s r k =
        (\<Sum>j<m. at3 h (if fst (shape3 h) = 1 then 0 else s) r j * at3 W s j k) + at3 b s 0 k"
    if "s < S" "r < N" "k < last ls" for s r k
    using at3_preactivation [OF shh shW' that] shh by simp
  with un h run Wb sho shW' show ?thesis by auto
qed

theorem predictions_last_layer_raw_witness:
  "\<exists>pairs h W b m out.
      unpack_layers [1, 2, 1] (array2_of 7 [[1, 2, 3, 4, 5, 6, 7]]) = Inr pairs \<and> pairs \<noteq> [] \<and>
      last pairs = (W, b) \<and>
      h = hidden_input tanh (expand_dims0 (array2_of 1 [[1], [2]])) (butlast pairs) \<and>
      predictions tanh [1, 2, 1] (array2_of 7 [[1, 2, 3, 4, 5, 6, 7]]) (array2_of 1 [[1], [2]]) = Inr out \<and>
      out = preactivation h (W, b) \<and>
      shape3 out = (1, 2, last [1, 2, 1]) \<and> shape3 W = (1, m, last [1, 2, 1]) \<and>
      (\<forall>s<1. \<forall>r<2. \<forall>k<last [1, 2, 1].
         at3 out s r k =
           (\<Sum>j<m. at3 h (if fst (shape3 h) = 1 then 0 else s) r j * at3 W s j k) + at3 b s 0 k)"
proof -
  have 1: "shape2 (array2_of 7 [[1, 2, 3, 4, 5, 6, 7]]) = (1, num_weights [1, 2, 1])"
    by (simp add: array2_of_def num_weights_def shapes_def)
  have 2: "shape2 (array2_of 1 [[1], [2]]) = (2, hd [1, 2, 1])"
    by (simp add: array2_of_def)
  have 3: "2 \<le> length [1, 2, 1::nat]" by simp
  show ?thesis by (rule predictions_last_layer_raw [OF 1 2 3])
qed

section \<open>logprob: the value per sample\<close>

lemma map3_tab3: "map3 f (tab3 s n d g) = tab3 s n d (\<lambda>i j k. f (g i j k))"
  by (simp add: map3_def tab3_def map_concat comp_def)

lemma sub3_2_targets:
  assumes "shape3 preds = (S, N, D)" and "shape2 targets = (N, 1)"
  shows "sub3_2 preds targets = Inr (tab3 S N D (\<lambda>i j k. at3 preds i j k - at2 targets j 0))"
proof -
  have "tab3 S N D (\<lambda>i j k. at3 preds i (bidx N j) (bidx D k) - at2 targets (bidx N j) (bidx 1 k)) =
        tab3 S N D (\<lambda>i j k. at3 preds i j k - at2 targets j 0)"
    by (rule tab3_cong) simp
  then show ?thesis by (simp add: sub3_2_def assms)
qed

lemma sum_axis1_3_tab3:
  "sum_axis1_3 (tab3 s n d g) = tab2 s d (\<lambda>i k. \<Sum>j<n. g i j k)"
proof -
  have "tab2 s d (\<lambda>i k. sum_list (map (\<lambda>j. at3 (tab3 s n d g) i j k) [0..<n])) =
        tab2 s d (\<lambda>i k. \<Sum>j<n. g i j k)"
  proof (rule tab2_cong)
    fix i k assume "i < s" "k < d"
    then have "map (\<lambda>j. at3 (tab3 s n d g) i j k) [0..<n] = map (\<lambda>j. g i j k) [0..<n]"
      by (intro map_cong) simp_all
    then show "sum_list (map (\<lambda>j. at3 (tab3 s n d g) i j k) [0..<n]) = (\<Sum>j<n. g i j k)"
      by (simp only: sum_list_upt)
  qed
  then show ?thesis by (simp add: sum_axis1_3_def)
qed

lemma squared_error_sums_targets:
  assumes "shape3 preds = (S, N, D)" and "shape2 targets = (N, 1)"
  shows "squared_error_sums preds targets =
         Inr (tab2 S D (\<lambda>s k. \<Sum>n<N. (at3 preds s n k - at2 targets n 0)\<^sup>2))"
  by (simp add: squared_error_sums_def sub3_2_targets [OF assms] map3_tab3 sum_axis1_3_tab3)

lemma log_lik_targets:
  assumes "shape3 preds = (S, N, D)" and "shape2 targets = (N, 1)" and "0 < D"
  shows "log_lik noise_variance preds targets =
         Inr (map (\<lambda>s. (- (\<Sum>n<N. (at3 preds s n 0 - at2 targets n 0)\<^sup>2)) / noise_variance) [0..<S])"
proof -
  let ?t = "tab2 S D (\<lambda>s k. \<Sum>n<N. (at3 preds s n k - at2 targets n 0)\<^sup>2)"
  have "map (\<lambda>i. at2 ?t i 0) [0..<S] =
        map (\<lambda>s. \<Sum>n<N. (at3 preds s n 0 - at2 targets n 0)\<^sup>2) [0..<S]"
    by (rule map_cong) (use assms(3) in simp_all)
  then have "column0 ?t = Inr (map (\<lambda>s. \<Sum>n<N. (at3 preds s n 0 - at2 targets n 0)\<^sup>2) [0..<S])"
    using assms(3) by (simp add: column0_def)
  then show ?thesis
    by (simp add: log_lik_def squared_error_sums_targets [OF assms(1,2)] comp_def)
qed

lemma add1_same_length:
  assumes "length xs = length ys"
  shows "add1 xs ys = Inr (map (\<lambda>i. xs ! i + ys ! i) [0..<length xs])"
proof -
  have "map (\<lambda>i. xs ! bidx (length xs) i + ys ! bidx (length ys) i) [0..<length xs] =
        map (\<lambda>i. xs ! i + ys ! i) [0..<length xs]"
    by (rule map_cong) (simp_all add: assms [symmetric])
  then show ?thesis by (simp add: add1_def assms [symmetric])
qed

lemma logprob_run:
  assumes "wf2 weights" and "shape2 weights = (S, num_weights ls)"
    and "shape2 inputs = (N, hd ls)" and "shape2 targets = (N, 1)"
    and "2 \<le> length ls" and "0 < last ls"
  shows "\<exists>preds. predictions f ls weights inputs = Inr preds \<and> shape3 preds = (S, N, last ls) \<and>
     log_lik noise_variance preds targets =
       Inr (map (\<lambda>s. (- (\<Sum>n<N. (at3 preds s n 0 - at2 targets n 0)\<^sup>2)) / noise_variance) [0..<S]) \<and>
     logprob f ls L2_reg noise_variance weights inputs targets =
       Inr (map (\<lambda>s. - L2_reg * (\<Sum>w<num_weights ls. (at2 weights s w)\<^sup>2)
                     + (- (\<Sum>n<N. (at3 preds s n 0 - at2 targets n 0)\<^sup>2)) / noise_variance) [0..<S])"
proof -
  from predictions_run [OF assms(2,3,5), of f] obtain pairs h sx m where
    shh: "shape3 h = (sx, N, m)"
    and shW: "shape3 (fst (last pairs)) = (S, m, last ls)"
    and run: "predictions f ls weights inputs = Inr (preactivation h (last pairs))"
    by blast
  let ?preds = "preactivation h (last pairs)"
  let ?ll = "map (\<lambda>s. (- (\<Sum>n<N. (at3 ?preds s n 0 - at2 targets n 0)\<^sup>2)) / noise_variance) [0..<S]"
  have sho: "shape3 ?preds = (S, N, last ls)"
    using shape3_preactivation [OF shh, of "fst (last pairs)" S m "last ls" "snd (last pairs)"] shW
    by simp
  have ll: "log_lik noise_variance ?preds targets = Inr ?ll"
    by (rule log_lik_targets [OF sho assms(4,6)])
  have "add1 (log_prior L2_reg weights) ?ll =
        Inr (map (\<lambda>i. log_prior L2_reg weights ! i + ?ll ! i) [0..<length (log_prior L2_reg weights)])"
    by (rule add1_same_length) (simp add: assms(2))
  also have "map (\<lambda>i. log_prior L2_reg weights ! i + ?ll ! i) [0..<length (log_prior L2_reg weights)] =
      map (\<lambda>s. - L2_reg * (\<Sum>w<num_weights ls. (at2 weights s w)\<^sup>2)
                     + (- (\<Sum>n<N. (at3 ?preds s n 0 - at2 targets n 0)\<^sup>2)) / noise_variance) [0..<S]"
    by (rule map_cong) (simp_all add: assms(2) nth_log_prior [OF assms(1)])
  finally have "logprob f ls L2_reg noise_variance weights inputs targets =
       Inr (map (\<lambda>s. - L2_reg * (\<Sum>w<num_weights ls. (at2 weights s w)\<^sup>2)
                     + (- (\<Sum>n<N. (at3 ?preds s n 0 - at2 targets n 0)\<^sup>2)) / noise_variance) [0..<S])"
    by (simp add: logprob_def run ll)
  with run sho ll show ?thesis by blast
qed

text \<open>
  Claim C1. For a layer schedule of length at least two with a positive last size, weights
  of shape \<open>(S, W)\<close> with \<open>W = num_weights\<close>, inputs of shape \<open>(N, D)\<close> with \<open>D\<close> the
  first layer size, targets of shape \<open>(N, 1)\<close> and a noise variance other than zero (numpy divides by a zero variance into infinities and NaN, which
  the real numbers do not model), \<^verbatim>\<open>logprob\<close> returns an array of rank one and length
  \<open>S\<close> whose entry for the sample \<open>s\<close> is the log-prior
  \<open>- L2_reg \<cdot> \<Sum>\<^sub>w weights[s, w]\<^sup>2\<close> plus the log-likelihood
  \<open>- \<Sum>\<^sub>n (preds[s, n, 0] - targets[n, 0])\<^sup>2 / noise_variance\<close>, where \<open>preds\<close> is the
  array that \<^verbatim>\<open>predictions\<close> returns.
\<close>

theorem logprob_formula:
  assumes "wf2 weights" and "shape2 weights = (S, num_weights ls)"
    and "shape2 inputs = (N, hd ls)" and "shape2 targets = (N, 1)"
    and "2 \<le> length ls" and "0 < last ls" and "noise_variance \<noteq> 0"
  shows "\<exists>preds r.
     predictions nonlinearity ls weights inputs = Inr preds \<and> shape3 preds = (S, N, last ls) \<and>
     logprob nonlinearity ls L2_reg noise_variance weights inputs targets = Inr r \<and>
     length r = S \<and>
     (\<forall>s<S. r ! s =
        - L2_reg * (\<Sum>w<num_weights ls. (at2 weights s w)\<^sup>2)
        + (- (\<Sum>n<N. (at3 preds s n 0 - at2 targets n 0)\<^sup>2)) / noise_variance)"
proof -
  from logprob_run [OF assms(1-6), of nonlinearity noise_variance L2_reg]
  obtain preds where
    "predictions nonlinearity ls weights inputs = Inr preds" "shape3 preds = (S, N, last ls)"
    "logprob nonlinearity ls L2_reg noise_variance weights inputs targets =
       Inr (map (\<lambda>s. - L2_reg * (\<Sum>w<num_weights ls. (at2 weights s w)\<^sup>2)
                     + (- (\<Sum>n<N. (at3 preds s n 0 - at2 targets n 0)\<^sup>2)) / noise_variance) [0..<S])"
    by blast
  then show ?thesis by simp
qed

theorem logprob_formula_witness:
  "\<exists>preds r.
     predictions tanh [1, 2, 1] (array2_of 7 [[1, 2, 3, 4, 5, 6, 7]]) (array2_of 1 [[1], [2]]) = Inr preds \<and>
     shape3 preds = (1, 2, last [1, 2, 1]) \<and>
     logprob tanh [1, 2, 1] (1 / 2) 2 (array2_of 7 [[1, 2, 3, 4, 5, 6, 7]]) (array2_of 1 [[1], [2]])
       (array2_of 1 [[0], [3]]) = Inr r \<and>
     length r = 1 \<and>
     (\<forall>s<1. r ! s =
        - (1 / 2) * (\<Sum>w<num_weights [1, 2, 1]. (at2 (array2_of 7 [[1, 2, 3, 4, 5, 6, 7]]) s w)\<^sup>2)
        + (- (\<Sum>n<2. (at3 preds s n 0 - at2 (array2_of 1 [[0], [3]]) n 0)\<^sup>2)) / 2)"
proof -
  have 1: "wf2 (array2_of 7 [[1, 2, 3, 4, 5, 6, 7]])" by (simp add: wf2_def array2_of_def)
  have 2: "shape2 (array2_of 7 [[1, 2, 3, 4, 5, 6, 7]]) = (1, num_weights [1, 2, 1])"
    by (simp add: array2_of_def num_weights_def shapes_def)
  have 3: "shape2 (array2_of 1 [[1], [2]]) = (2, hd [1, 2, 1])"
    by (simp add: array2_of_def)
  have 4: "shape2 (array2_of 1 [[0], [3]]) = (2, 1)"
    by (simp add: array2_of_def)
  have 5: "2 \<le> length [1, 2, 1::nat]" by simp
  have 6: "0 < last [1, 2, 1::nat]" by simp
  have 7: "(2::real) \<noteq> 0" by simp
  show ?thesis by (rule logprob_formula [OF 1 2 3 4 5 6 7])
qed

text \<open>
  Claim C8. For one weight sample and an empty data set (no rows in the inputs and in the
  targets), a layer schedule and a noise variance as in the claim C1, the log-likelihood
  term is exactly zero and \<^verbatim>\<open>logprob\<close> returns exactly the
  log-prior term \<open>- L2_reg \<cdot> \<Sum>\<^sub>w weights[0, w]\<^sup>2\<close>.
\<close>

theorem logprob_empty_dataset:
  assumes "wf2 weights" and "shape2 weights = (1, num_weights ls)"
    and "shape2 inputs = (0, hd ls)" and "shape2 targets = (0, 1)"
    and "2 \<le> length ls" and "0 < last ls" and "noise_variance \<noteq> 0"
  shows "\<exists>preds.
     predictions nonlinearity ls weights inputs = Inr preds \<and>
     log_lik noise_variance preds targets = Inr [0] \<and>
     logprob nonlinearity ls L2_reg noise_variance weights inputs targets =
       Inr [- L2_reg * (\<Sum>w<num_weights ls. (at2 weights 0 w)\<^sup>2)] \<and>
     logprob nonlinearity ls L2_reg noise_variance weights inputs targets =
       Inr (log_prior L2_reg weights)"
proof -
  from logprob_run [OF assms(1-6), of nonlinearity noise_variance L2_reg]
  obtain preds where run: "predictions nonlinearity ls weights inputs = Inr preds"
    and ll: "log_lik noise_variance preds targets = Inr [0]"
    and lp: "logprob nonlinearity ls L2_reg noise_variance weights inputs targets =
       Inr [- L2_reg * (\<Sum>w<num_weights ls. (at2 weights 0 w)\<^sup>2)]"
    by auto
  have "log_prior L2_reg weights = [log_prior L2_reg weights ! 0]"
    by (rule nth_equalityI) (simp_all add: assms(2))
  also have "\<dots> = [- L2_reg * (\<Sum>w<num_weights ls. (at2 weights 0 w)\<^sup>2)]"
    using nth_log_prior [OF assms(1), of 0 L2_reg] assms(2) by simp
  finally show ?thesis using run ll lp by simp
qed

theorem logprob_empty_dataset_witness:
  "\<exists>preds.
     predictions tanh [1, 2, 1] (array2_of 7 [[1, 2, 3, 4, 5, 6, 7]]) (array2_of 1 []) = Inr preds \<and>
     log_lik 2 preds (array2_of 1 []) = Inr [0] \<and>
     logprob tanh [1, 2, 1] (1 / 2) 2 (array2_of 7 [[1, 2, 3, 4, 5, 6, 7]]) (array2_of 1 [])
       (array2_of 1 []) =
       Inr [- (1 / 2) * (\<Sum>w<num_weights [1, 2, 1]. (at2 (array2_of 7 [[1, 2, 3, 4, 5, 6, 7]]) 0 w)\<^sup>2)] \<and>
     logprob tanh [1, 2, 1] (1 / 2) 2 (array2_of 7 [[1, 2, 3, 4, 5, 6, 7]]) (array2_of 1 [])
       (array2_of 1 []) = Inr (log_prior (1 / 2) (array2_of 7 [[1, 2, 3, 4, 5, 6, 7]]))"
proof -
  have 1: "wf2 (array2_of 7 [[1, 2, 3, 4, 5, 6, 7]])" by (simp add: wf2_def array2_of_def)
  have 2: "shape2 (array2_of 7 [[1, 2, 3, 4, 5, 6, 7]]) = (1, num_weights [1, 2, 1])"
    by (simp add: array2_of_def num_weights_def shapes_def)
  have 3: "shape2 (array2_of 1 []) = (0, hd [1, 2, 1])"
    by (simp add: array2_of_def)
  have 4: "shape2 (array2_of 1 []) = (0, 1)"
    by (simp add: array2_of_def)
  have 5: "2 \<le> length [1, 2, 1::nat]" by simp
  have 6: "0 < last [1, 2, 1::nat]" by simp
  have 7: "(2::real) \<noteq> 0" by simp
  show ?thesis by (rule logprob_empty_dataset [OF 1 2 3 4 5 6 7])
qed

section \<open>logprob: output columns beyond the first\<close>



section \<open>predictions on all-zero weights\<close>


lemma set_data2_tab2_zero:
  "(\<And>i j. i < s \<Longrightarrow> j < w \<Longrightarrow> f i j = 0) \<Longrightarrow> set (data2 (tab2 s w f)) \<subseteq> {0}"
  by (auto simp: tab2_def)









lemma zeros2_zero [simp]: "set (data2 (zeros2 s w)) \<subseteq> {0}"
  unfolding zeros2_def by (rule set_data2_tab2_zero) simp

lemma wf2_zeros2 [simp]: "wf2 (zeros2 s w)"
  by (simp add: zeros2_def)

lemma shape2_zeros2 [simp]: "shape2 (zeros2 s w) = (s, w)"
  by (simp add: zeros2_def)



section \<open>Weight unpacking: the pairs, their shapes, sizes and contents\<close>

lemma at3_reshaped:
  "shape2 a = (S, m * n) \<Longrightarrow>
   at3 \<lparr>shape3 = (S, m, n), data3 = data2 a\<rparr> s i j = at2 a s (i * n + j)"
  by (simp add: at3_def at2_def algebra_simps)

lemma wf3_reshaped:
  "wf2 a \<Longrightarrow> shape2 a = (S, m * n) \<Longrightarrow> wf3 \<lparr>shape3 = (S, m, n), data3 = data2 a\<rparr>"
  by (simp add: wf3_def wf2_def)

lemma at2_slice_cols_from:
  "shape2 a = (s, w) \<Longrightarrow> lo \<le> w \<Longrightarrow> i < s \<Longrightarrow> j < w - lo \<Longrightarrow>
   at2 (slice_cols_from lo a) i j = at2 a i (lo + j)"
  by (simp add: slice_cols_from_tab2)

lemma total_take_le:
  fixes shs :: "(nat \<times> nat) list"
  shows "k < length shs \<Longrightarrow>
   sum_list (map (\<lambda>(m, n). (m + 1) * n) (take k shs)) + (fst (shs ! k) + 1) * snd (shs ! k)
   \<le> sum_list (map (\<lambda>(m, n). (m + 1) * n) shs)"
proof (induction shs arbitrary: k)
  case Nil
  then show ?case by simp
next
  case (Cons mn shs)
  show ?case
  proof (cases k)
    case 0
    then show ?thesis by (simp add: case_prod_unfold)
  next
    case (Suc k')
    with Cons.prems have "k' < length shs" by simp
    from Cons.IH [OF this] Suc show ?thesis by simp
  qed
qed

lemma unpack_loop_content:
  assumes "shape2 w = (S, sum_list (map (\<lambda>(m, n). (m + 1) * n) shs))"
  shows "\<exists>pairs. unpack_loop S shs w = Inr pairs \<and> length pairs = length shs \<and>
    (\<forall>k<length shs.
       shape3 (fst (pairs ! k)) = (S, fst (shs ! k), snd (shs ! k)) \<and> wf3 (fst (pairs ! k)) \<and>
       shape3 (snd (pairs ! k)) = (S, 1, snd (shs ! k)) \<and> wf3 (snd (pairs ! k)) \<and>
       (\<forall>s<S. \<forall>i<fst (shs ! k). \<forall>j<snd (shs ! k).
          at3 (fst (pairs ! k)) s i j =
          at2 w s (sum_list (map (\<lambda>(m, n). (m + 1) * n) (take k shs)) + i * snd (shs ! k) + j)) \<and>
       (\<forall>s<S. \<forall>j<snd (shs ! k).
          at3 (snd (pairs ! k)) s 0 j =
          at2 w s (sum_list (map (\<lambda>(m, n). (m + 1) * n) (take k shs))
                   + fst (shs ! k) * snd (shs ! k) + j)))"
  using assms
proof (induction shs arbitrary: w)
  case Nil
  then show ?case by simp
next
  case (Cons mn shs)
  obtain m n where mn: "mn = (m, n)" by (cases mn)
  let ?tot = "\<lambda>l. sum_list (map (\<lambda>(m, n). (m + 1) * n) l)"
  let ?A = "slice_cols 0 (m * n) w"
  let ?B = "slice_cols (m * n) (m * n + n) w"
  let ?W = "\<lparr>shape3 = (S, m, n), data3 = data2 ?A\<rparr>"
  let ?b = "\<lparr>shape3 = (S, 1, n), data3 = data2 ?B\<rparr>"
  let ?w' = "slice_cols_from ((m + 1) * n) w"
  have sh: "shape2 w = (S, (m + 1) * n + ?tot shs)" using Cons.prems mn by simp
  have step: "unpack_step S (m, n) w = Inr ((?W, ?b), ?w')"
    by (rule unpack_step_ok [OF sh]) simp
  have shA: "shape2 ?A = (S, m * n)" using sh by (simp add: min_absorb1)
  have shB: "shape2 ?B = (S, 1 * n)" using sh by (simp add: min_absorb1)
  have sh': "shape2 ?w' = (S, ?tot shs)" using sh by simp
  from Cons.IH [OF sh'] obtain pairs where
    loop: "unpack_loop S shs ?w' = Inr pairs" and len: "length pairs = length shs"
    and ih: "\<And>k. k < length shs \<Longrightarrow>
       shape3 (fst (pairs ! k)) = (S, fst (shs ! k), snd (shs ! k)) \<and> wf3 (fst (pairs ! k)) \<and>
       shape3 (snd (pairs ! k)) = (S, 1, snd (shs ! k)) \<and> wf3 (snd (pairs ! k)) \<and>
       (\<forall>s<S. \<forall>i<fst (shs ! k). \<forall>j<snd (shs ! k).
          at3 (fst (pairs ! k)) s i j =
          at2 ?w' s (?tot (take k shs) + i * snd (shs ! k) + j)) \<and>
       (\<forall>s<S. \<forall>j<snd (shs ! k).
          at3 (snd (pairs ! k)) s 0 j =
          at2 ?w' s (?tot (take k shs) + fst (shs ! k) * snd (shs ! k) + j))"
    by blast
  have run: "unpack_loop S (mn # shs) w = Inr ((?W, ?b) # pairs)"
    using step loop mn by simp
  have first:
    "shape3 ?W = (S, m, n) \<and> wf3 ?W \<and> shape3 ?b = (S, 1, n) \<and> wf3 ?b \<and>
     (\<forall>s<S. \<forall>i<m. \<forall>j<n. at3 ?W s i j = at2 w s (0 + i * n + j)) \<and>
     (\<forall>s<S. \<forall>j<n. at3 ?b s 0 j = at2 w s (0 + m * n + j))"
  proof -
    have "wf3 ?W" by (rule wf3_reshaped [OF _ shA]) simp
    moreover have "wf3 ?b" by (rule wf3_reshaped [OF _ shB]) simp
    moreover have "at3 ?W s i j = at2 w s (0 + i * n + j)" if "s < S" "i < m" "j < n" for s i j
    proof -
      have "i * n + j < m * n" by (rule idx2_less [OF that(2,3)])
      then have "at2 ?A s (i * n + j) = at2 w s (0 + (i * n + j))"
        using that(1) by (intro at2_slice_cols [OF sh]) simp_all
      then show ?thesis by (simp add: at3_reshaped [OF shA])
    qed
    moreover have "at3 ?b s 0 j = at2 w s (0 + m * n + j)" if "s < S" "j < n" for s j
    proof -
      have "at2 ?B s j = at2 w s (m * n + j)"
        using that by (intro at2_slice_cols [OF sh]) simp_all
      then show ?thesis using at3_reshaped [OF shB, of s 0 j] by simp
    qed
    ultimately show ?thesis by simp
  qed
  have later:
    "shape3 (fst (pairs ! k)) = (S, fst (shs ! k), snd (shs ! k)) \<and> wf3 (fst (pairs ! k)) \<and>
     shape3 (snd (pairs ! k)) = (S, 1, snd (shs ! k)) \<and> wf3 (snd (pairs ! k)) \<and>
     (\<forall>s<S. \<forall>i<fst (shs ! k). \<forall>j<snd (shs ! k).
        at3 (fst (pairs ! k)) s i j =
        at2 w s ((m + 1) * n + ?tot (take k shs) + i * snd (shs ! k) + j)) \<and>
     (\<forall>s<S. \<forall>j<snd (shs ! k).
        at3 (snd (pairs ! k)) s 0 j =
        at2 w s ((m + 1) * n + ?tot (take k shs) + fst (shs ! k) * snd (shs ! k) + j))"
    if k: "k < length shs" for k
  proof -
    let ?m = "fst (shs ! k)" and ?n = "snd (shs ! k)" and ?off = "?tot (take k shs)"
    have bound: "?off + (?m + 1) * ?n \<le> ?tot shs" by (rule total_take_le [OF k])
    have shift: "at2 ?w' s c = at2 w s ((m + 1) * n + c)" if "s < S" "c < ?tot shs" for s c
      using that by (intro at2_slice_cols_from [OF sh]) simp_all
    have "at2 ?w' s (?off + i * ?n + j) = at2 w s ((m + 1) * n + ?off + i * ?n + j)"
      if "s < S" "i < ?m" "j < ?n" for s i j
    proof -
      have "i * ?n + j < ?m * ?n" by (rule idx2_less [OF that(2,3)])
      with bound have "?off + i * ?n + j < ?tot shs" by simp
      from shift [OF that(1) this] show ?thesis by (simp add: add.assoc)
    qed
    moreover have "at2 ?w' s (?off + ?m * ?n + j) = at2 w s ((m + 1) * n + ?off + ?m * ?n + j)"
      if "s < S" "j < ?n" for s j
    proof -
      have "?off + ?m * ?n + j < ?tot shs" using bound that(2) by simp
      from shift [OF that(1) this] show ?thesis by (simp add: add.assoc)
    qed
    ultimately show ?thesis using ih [OF k] by simp
  qed
  have all: "\<forall>k<length (mn # shs).
       shape3 (fst (((?W, ?b) # pairs) ! k)) = (S, fst ((mn # shs) ! k), snd ((mn # shs) ! k)) \<and>
       wf3 (fst (((?W, ?b) # pairs) ! k)) \<and>
       shape3 (snd (((?W, ?b) # pairs) ! k)) = (S, 1, snd ((mn # shs) ! k)) \<and>
       wf3 (snd (((?W, ?b) # pairs) ! k)) \<and>
       (\<forall>s<S. \<forall>i<fst ((mn # shs) ! k). \<forall>j<snd ((mn # shs) ! k).
          at3 (fst (((?W, ?b) # pairs) ! k)) s i j =
          at2 w s (?tot (take k (mn # shs)) + i * snd ((mn # shs) ! k) + j)) \<and>
       (\<forall>s<S. \<forall>j<snd ((mn # shs) ! k).
          at3 (snd (((?W, ?b) # pairs) ! k)) s 0 j =
          at2 w s (?tot (take k (mn # shs))
                   + fst ((mn # shs) ! k) * snd ((mn # shs) ! k) + j))"
  proof (intro allI impI)
    fix k assume "k < length (mn # shs)"
    then show "shape3 (fst (((?W, ?b) # pairs) ! k)) = (S, fst ((mn # shs) ! k), snd ((mn # shs) ! k)) \<and>
       wf3 (fst (((?W, ?b) # pairs) ! k)) \<and>
       shape3 (snd (((?W, ?b) # pairs) ! k)) = (S, 1, snd ((mn # shs) ! k)) \<and>
       wf3 (snd (((?W, ?b) # pairs) ! k)) \<and>
       (\<forall>s<S. \<forall>i<fst ((mn # shs) ! k). \<forall>j<snd ((mn # shs) ! k).
          at3 (fst (((?W, ?b) # pairs) ! k)) s i j =
          at2 w s (?tot (take k (mn # shs)) + i * snd ((mn # shs) ! k) + j)) \<and>
       (\<forall>s<S. \<forall>j<snd ((mn # shs) ! k).
          at3 (snd (((?W, ?b) # pairs) ! k)) s 0 j =
          at2 w s (?tot (take k (mn # shs))
                   + fst ((mn # shs) ! k) * snd ((mn # shs) ! k) + j))"
    proof (cases k)
      case 0
      with first mn show ?thesis by simp
    next
      case (Suc k')
      with \<open>k < length (mn # shs)\<close> have "k' < length shs" by simp
      from later [OF this] Suc mn show ?thesis by simp
    qed
  qed
  from run len all show ?case by simp
qed

lemma sum_list_take_nth:
  fixes f :: "'a \<Rightarrow> nat"
  shows "k \<le> length xs \<Longrightarrow> sum_list (map f (take k xs)) = (\<Sum>q<k. f (xs ! q))"
proof -
  assume k: "k \<le> length xs"
  have "sum_list (map f (take k xs)) = (\<Sum>q = 0..<length (take k xs). map f (take k xs) ! q)"
    by (simp add: sum_list_sum_nth)
  also have "\<dots> = (\<Sum>q = 0..<k. f (xs ! q))"
    using k by (intro sum.cong) simp_all
  finally show ?thesis by (simp add: atLeast0LessThan)
qed

lemma offset_shapes:
  assumes "k < length ls - 1"
  shows "sum_list (map (\<lambda>(m, n). (m + 1) * n) (take k (shapes ls))) =
         (\<Sum>q<k. (ls ! q + 1) * ls ! Suc q)"
proof -
  have "sum_list (map (\<lambda>(m, n). (m + 1) * n) (take k (shapes ls))) =
        (\<Sum>q<k. (\<lambda>(m, n). (m + 1) * n) (shapes ls ! q))"
    by (rule sum_list_take_nth) (use assms in \<open>simp add: length_shapes\<close>)
  also have "\<dots> = (\<Sum>q<k. (ls ! q + 1) * ls ! Suc q)"
    by (rule sum.cong) (use assms in \<open>simp_all add: nth_shapes\<close>)
  finally show ?thesis .
qed

text \<open>
  Claim C3. For a weight array of shape \<open>(S, W)\<close> with \<open>W = num_weights\<close>, the generator
  runs to its end without an error and yields one pair per adjacent pair \<open>(m, n)\<close> of layer
  sizes, in the order of the schedule. The weight matrix has the shape \<open>(S, m, n)\<close> and the
  bias the shape \<open>(S, 1, n)\<close>, and each holds as many elements as its shape says: the matrix
  holds, row by row, the \<open>m \<cdot> n\<close> columns of the weights that follow the columns of the
  earlier pairs, and the bias the next \<open>n\<close> columns. The numbers of elements per sample of
  all yielded arrays add up to \<open>W\<close>, the arrays hold \<open>S \<cdot> W\<close> elements together, and
  \<open>num_weights\<close> is the sum of \<open>(m + 1) \<cdot> n\<close> over the adjacent pairs.
\<close>

theorem unpack_layers_shapes:
  assumes "shape2 weights = (S, num_weights layer_sizes)"
  shows "\<exists>pairs. unpack_layers layer_sizes weights = Inr pairs \<and>
     length pairs = length layer_sizes - 1 \<and>
     (\<forall>k<length layer_sizes - 1.
        shape3 (fst (pairs ! k)) = (S, layer_sizes ! k, layer_sizes ! Suc k) \<and>
        wf3 (fst (pairs ! k)) \<and>
        shape3 (snd (pairs ! k)) = (S, 1, layer_sizes ! Suc k) \<and>
        wf3 (snd (pairs ! k)) \<and>
        (\<forall>s<S. \<forall>i<layer_sizes ! k. \<forall>j<layer_sizes ! Suc k.
           at3 (fst (pairs ! k)) s i j =
           at2 weights s ((\<Sum>q<k. (layer_sizes ! q + 1) * layer_sizes ! Suc q)
                          + i * layer_sizes ! Suc k + j)) \<and>
        (\<forall>s<S. \<forall>j<layer_sizes ! Suc k.
           at3 (snd (pairs ! k)) s 0 j =
           at2 weights s ((\<Sum>q<k. (layer_sizes ! q + 1) * layer_sizes ! Suc q)
                          + layer_sizes ! k * layer_sizes ! Suc k + j))) \<and>
     (\<Sum>(W, b)\<leftarrow>pairs. per_sample W + per_sample b) = num_weights layer_sizes \<and>
     (\<Sum>(W, b)\<leftarrow>pairs. length (data3 W) + length (data3 b)) = S * num_weights layer_sizes \<and>
     num_weights layer_sizes =
       (\<Sum>k<length layer_sizes - 1. (layer_sizes ! k + 1) * layer_sizes ! Suc k)"
proof -
  let ?ls = layer_sizes
  let ?off = "\<lambda>k. \<Sum>q<k. (?ls ! q + 1) * ?ls ! Suc q"
  have sh: "shape2 weights = (S, sum_list (map (\<lambda>(m, n). (m + 1) * n) (shapes ?ls)))"
    using assms by (simp add: num_weights_def)
  from unpack_loop_content [OF sh] obtain pairs where
    run: "unpack_layers ?ls weights = Inr pairs"
    and len: "length pairs = length ?ls - 1"
    and raw: "\<And>k. k < length (shapes ?ls) \<Longrightarrow>
       shape3 (fst (pairs ! k)) = (S, fst (shapes ?ls ! k), snd (shapes ?ls ! k)) \<and>
       wf3 (fst (pairs ! k)) \<and>
       shape3 (snd (pairs ! k)) = (S, 1, snd (shapes ?ls ! k)) \<and> wf3 (snd (pairs ! k)) \<and>
       (\<forall>s<S. \<forall>i<fst (shapes ?ls ! k). \<forall>j<snd (shapes ?ls ! k).
          at3 (fst (pairs ! k)) s i j =
          at2 weights s (sum_list (map (\<lambda>(m, n). (m + 1) * n) (take k (shapes ?ls)))
                         + i * snd (shapes ?ls ! k) + j)) \<and>
       (\<forall>s<S. \<forall>j<snd (shapes ?ls ! k).
          at3 (snd (pairs ! k)) s 0 j =
          at2 weights s (sum_list (map (\<lambda>(m, n). (m + 1) * n) (take k (shapes ?ls)))
                   + fst (shapes ?ls ! k) * snd (shapes ?ls ! k) + j))"
    by (auto simp: unpack_layers_def assms length_shapes)
  have each:
    "shape3 (fst (pairs ! k)) = (S, ?ls ! k, ?ls ! Suc k) \<and> wf3 (fst (pairs ! k)) \<and>
     shape3 (snd (pairs ! k)) = (S, 1, ?ls ! Suc k) \<and> wf3 (snd (pairs ! k)) \<and>
     (\<forall>s<S. \<forall>i<?ls ! k. \<forall>j<?ls ! Suc k.
        at3 (fst (pairs ! k)) s i j = at2 weights s (?off k + i * ?ls ! Suc k + j)) \<and>
     (\<forall>s<S. \<forall>j<?ls ! Suc k.
        at3 (snd (pairs ! k)) s 0 j = at2 weights s (?off k + ?ls ! k * ?ls ! Suc k + j))"
    if k: "k < length ?ls - 1" for k
  proof -
    have "k < length (shapes ?ls)" using k by (simp add: length_shapes)
    from raw [OF this] show ?thesis
      unfolding nth_shapes [OF k] offset_shapes [OF k] fst_conv snd_conv .
  qed
  have count: "per_sample (fst (pairs ! k)) + per_sample (snd (pairs ! k)) =
               (?ls ! k + 1) * ?ls ! Suc k"
    and elems: "length (data3 (fst (pairs ! k))) + length (data3 (snd (pairs ! k))) =
               S * ((?ls ! k + 1) * ?ls ! Suc k)"
    if k: "k < length ?ls - 1" for k
  proof -
    from each [OF k] have shW: "shape3 (fst (pairs ! k)) = (S, ?ls ! k, ?ls ! Suc k)"
      and wfW: "wf3 (fst (pairs ! k))"
      and shb: "shape3 (snd (pairs ! k)) = (S, 1, ?ls ! Suc k)"
      and wfb: "wf3 (snd (pairs ! k))"
      by simp_all
    show "per_sample (fst (pairs ! k)) + per_sample (snd (pairs ! k)) =
          (?ls ! k + 1) * ?ls ! Suc k"
      by (simp add: per_sample_def shW shb)
    have "length (data3 (fst (pairs ! k))) = S * ?ls ! k * ?ls ! Suc k"
      using wfW by (simp add: wf3_def shW)
    moreover have "length (data3 (snd (pairs ! k))) = S * 1 * ?ls ! Suc k"
      using wfb by (simp add: wf3_def shb)
    ultimately show "length (data3 (fst (pairs ! k))) + length (data3 (snd (pairs ! k))) =
          S * ((?ls ! k + 1) * ?ls ! Suc k)"
      by (simp add: algebra_simps)
  qed
  have "(\<Sum>(W, b)\<leftarrow>pairs. per_sample W + per_sample b) =
        (\<Sum>k = 0..<length pairs. per_sample (fst (pairs ! k)) + per_sample (snd (pairs ! k)))"
    by (simp add: sum_list_sum_nth case_prod_unfold)
  also have "\<dots> = (\<Sum>k = 0..<length pairs. (?ls ! k + 1) * ?ls ! Suc k)"
    by (rule sum.cong) (simp_all add: len count)
  also have "\<dots> = num_weights ?ls"
    by (simp add: len num_weights_sum atLeast0LessThan)
  finally have total: "(\<Sum>(W, b)\<leftarrow>pairs. per_sample W + per_sample b) = num_weights ?ls" .
  have "(\<Sum>(W, b)\<leftarrow>pairs. length (data3 W) + length (data3 b)) =
        (\<Sum>k = 0..<length pairs.
           length (data3 (fst (pairs ! k))) + length (data3 (snd (pairs ! k))))"
    by (simp add: sum_list_sum_nth case_prod_unfold)
  also have "\<dots> = (\<Sum>k = 0..<length pairs. S * ((?ls ! k + 1) * ?ls ! Suc k))"
    by (rule sum.cong) (simp_all add: len elems)
  also have "\<dots> = S * num_weights ?ls"
    by (simp add: len num_weights_sum atLeast0LessThan sum_distrib_left)
  finally have data: "(\<Sum>(W, b)\<leftarrow>pairs. length (data3 W) + length (data3 b)) =
        S * num_weights ?ls" .
  from run len each total data num_weights_sum [of ?ls] show ?thesis by blast
qed

theorem unpack_layers_shapes_witness:
  "shape2 (array2_of 7 [[1, 2, 3, 4, 5, 6, 7]]) = (1, num_weights [1, 2, 1]) \<and>
   (\<exists>pairs. unpack_layers [1, 2, 1] (array2_of 7 [[1, 2, 3, 4, 5, 6, 7]]) = Inr pairs \<and>
     length pairs = length [1, 2, 1::nat] - 1 \<and>
     (\<forall>k<length [1, 2, 1::nat] - 1.
        shape3 (fst (pairs ! k)) = (1, [1, 2, 1] ! k, [1, 2, 1] ! Suc k) \<and>
        wf3 (fst (pairs ! k)) \<and>
        shape3 (snd (pairs ! k)) = (1, 1, [1, 2, 1] ! Suc k) \<and>
        wf3 (snd (pairs ! k)) \<and>
        (\<forall>s<1. \<forall>i<[1, 2, 1] ! k. \<forall>j<[1, 2, 1] ! Suc k.
           at3 (fst (pairs ! k)) s i j =
           at2 (array2_of 7 [[1, 2, 3, 4, 5, 6, 7]]) s
             ((\<Sum>q<k. ([1, 2, 1] ! q + 1) * [1, 2, 1] ! Suc q) + i * [1, 2, 1] ! Suc k + j)) \<and>
        (\<forall>s<1. \<forall>j<[1, 2, 1] ! Suc k.
           at3 (snd (pairs ! k)) s 0 j =
           at2 (array2_of 7 [[1, 2, 3, 4, 5, 6, 7]]) s
             ((\<Sum>q<k. ([1, 2, 1] ! q + 1) * [1, 2, 1] ! Suc q)
              + [1, 2, 1] ! k * [1, 2, 1] ! Suc k + j))) \<and>
     (\<Sum>(W, b)\<leftarrow>pairs. per_sample W + per_sample b) = num_weights [1, 2, 1] \<and>
     (\<Sum>(W, b)\<leftarrow>pairs. length (data3 W) + length (data3 b)) = 1 * num_weights [1, 2, 1] \<and>
     num_weights [1, 2, 1] =
       (\<Sum>k<length [1, 2, 1::nat] - 1. ([1, 2, 1] ! k + 1) * [1, 2, 1] ! Suc k))"
proof -
  have h: "shape2 (array2_of 7 [[1, 2, 3, 4, 5, 6, 7]]) = (1, num_weights [1, 2, 1])"
    by (simp add: array2_of_def num_weights_def shapes_def)
  from h unpack_layers_shapes [OF h] show ?thesis by (rule conjI)
qed

end
